(* ===== verification/Prelude.thy ===== *)
theory Prelude
  imports Main "HOL-Library.Word" "HOL-Library.Multiset"
begin

text \<open>
  Shared vocabulary of the development: the result type of fallible Rust code with panics as a
  third outcome, the error values of the whole program (one constructor per \<open>anyhow!\<close> message),
  the machine types, and a few generic lemmas on words, lists and numbers.
\<close>

section \<open>Machine types\<close>

type_synonym byte = "8 word"
type_synonym u16 = "16 word"
type_synonym u32 = "32 word"
type_synonym u64 = "64 word"
type_synonym i32 = "32 word"
type_synonym i64 = "64 word"

text \<open>A raw file descriptor is a C \<open>int\<close>; its sign is read with the signed order on words.\<close>

type_synonym raw_fd = i32

section \<open>Errors and results\<close>

text \<open>
  The error values.  Every \<open>anyhow!(...)\<close> of the source and every error of a foreign call that the
  source forwards with \<open>?\<close> has a constructor of its own; the interpolated \<open>errno\<close> text is dropped.
\<close>

datatype err =
    ParseFailed | IncompleteRequest | MissingMethod | MissingPath | MissingVersion
  | FmtError
  | EpollCreateFailed | AddFdFailed | ModifyFdFailed | DeleteFdFailed | EpollWaitFailed
  | ReadFailed | WriteFailed | AcceptFailed | CloseFailed
  | OpenFailed | MetadataFailed | EmptyMmap | MmapFailed | MmapNull
  | SendfileFailed | SpliceFailed | VmspliceFailed
  | SocketFailed | BadHost | BindFailed | ListenFailed
  | MetricsError | EncodeError
  | NoCores | AffinityFailed | NoNumaCores | MaskTooLarge | SetAffinityFailed | GetAffinityFailed
  | RlimitFailed
  | IoUringDisabled | IoUringCreateFailed | PushFailed | SubmitFailed | CompletionWaitFailed
  | BatchSubmitFailed
  | DpdkDisabled
  | ConnectFailed | StreamWriteFailed | StreamReadFailed | CsvFailed

text \<open>
  \<open>Ok\<close> and \<open>Err\<close> are the constructors of Rust's \<open>Result\<close>; \<open>Panic\<close> is an index out of range, a
  slice off a character boundary or an overflow check that aborts the thread (the release profile
  has \<open>panic = "abort"\<close>, so it aborts the process).
\<close>

datatype 'a res = Ok 'a | Err err | Panic

fun res_bind :: "'a res \<Rightarrow> ('a \<Rightarrow> 'b res) \<Rightarrow> 'b res" where
  "res_bind (Ok x) f = f x"
| "res_bind (Err e) f = Err e"
| "res_bind Panic f = Panic"

text \<open>\<open>Option::ok_or_else\<close>\<close>

fun ok_or :: "err \<Rightarrow> 'a option \<Rightarrow> 'a res" where
  "ok_or e None = Err e"
| "ok_or e (Some x) = Ok x"

fun res_opt :: "'a res \<Rightarrow> 'a option" where
  "res_opt (Ok x) = Some x"
| "res_opt (Err e) = None"
| "res_opt Panic = None"

named_theorems res_simps \<open>unfolding of results and of the functions that combine them\<close>
named_theorems wf_intros \<open>preservation of well-formedness invariants\<close>

lemma res_bind_Ok_iff [simp]:
  "res_bind m f = Ok y \<longleftrightarrow> (\<exists>x. m = Ok x \<and> f x = Ok y)"
  by (cases m) auto

lemma res_bind_Panic_iff [simp]:
  "res_bind m f = Panic \<longleftrightarrow> m = Panic \<or> (\<exists>x. m = Ok x \<and> f x = Panic)"
  by (cases m) auto

lemma res_bind_Err_iff [simp]:
  "res_bind m f = Err e \<longleftrightarrow> m = Err e \<or> (\<exists>x. m = Ok x \<and> f x = Err e)"
  by (cases m) auto

lemma ok_or_Ok_iff [simp]: "ok_or e v = Ok x \<longleftrightarrow> v = Some x"
  by (cases v) auto

lemma ok_or_Err_iff [simp]: "ok_or e v = Err e' \<longleftrightarrow> v = None \<and> e' = e"
  by (cases v) auto

lemma ok_or_not_Panic [simp]: "ok_or e v \<noteq> Panic"
  by (cases v) auto

section \<open>Words\<close>

text \<open>The cast \<open>k as u8\<close> of a number.\<close>

definition u8_of :: "nat \<Rightarrow> byte" where
  "u8_of k = word_of_nat k"

lemma unat_u8_of [simp]: "k < 256 \<Longrightarrow> unat (u8_of k) = k"
  by (simp add: u8_of_def unat_of_nat take_bit_eq_mod)

lemma unat_u8_of_cont [simp]: "unat (u8_of (128 + n mod 64)) = 128 + n mod 64"
  by (rule unat_u8_of) (simp add: less_le_trans [OF mod_less_divisor])

lemma unat_byte_less [simp]: "unat (b :: byte) < 256"
  by (rule order_less_le_trans [OF unsigned_less]) simp

lemma u8_of_unat [simp]: "u8_of (unat b) = b"
  by (simp add: u8_of_def)

lemma u8_of_inject: "j < 256 \<Longrightarrow> k < 256 \<Longrightarrow> u8_of j = u8_of k \<longleftrightarrow> j = k"
  by (metis unat_u8_of)

lemma unat_u64_less: "unat (n :: u64) < 2 ^ 64"
  by (rule order_less_le_trans [OF unsigned_less]) simp

lemma unat_of_nat_u64: "n < 2 ^ 64 \<Longrightarrow> unat (word_of_nat n :: u64) = n"
  by (simp add: unsigned_of_nat take_bit_nat_eq_self)

lemma unat_add_no_wrap:
  fixes a b :: u64
  assumes "unat a + unat b < 2 ^ 64"
  shows "unat (a + b) = unat a + unat b"
  using assms by (simp add: unat_word_ariths)

lemma unat_sub_no_wrap:
  fixes a b :: u64
  assumes "b \<le> a"
  shows "unat (a - b) = unat a - unat b"
  using assms by (simp add: unat_sub)

text \<open>A C \<open>int\<close> that is not negative keeps its value under \<open>as usize\<close>.\<close>

lemma unat_scast_nonneg:
  fixes w :: i32
  assumes "\<not> w <s 0"
  shows "unat (scast w :: u64) = unat w"
proof -
  have top: "\<not> bit w 31"
    using assms bit_last_iff [of w] by (simp add: word_sless_alt)
  have "(scast w :: u64) = ucast w"
  proof (rule bit_word_eqI)
    fix n
    assume "n < LENGTH(64)"
    show "bit (scast w :: u64) n \<longleftrightarrow> bit (ucast w :: u64) n"
      using top by (cases "n < 31") (auto simp: bit_simps min_def not_less le_less dest: bit_imp_le_length)
  qed
  moreover have "unat w < 2 ^ 64"
    by (rule less_trans [OF unsigned_less]) simp
  ultimately show ?thesis
    by (simp add: unsigned_ucast_eq take_bit_nat_eq_self)
qed

section \<open>Lists\<close>

lemma takeWhile_neq_append [simp]:
  "c \<notin> set xs \<Longrightarrow> takeWhile (\<lambda>x. x \<noteq> c) (xs @ c # ys) = xs"
  by (induction xs) auto

lemma dropWhile_neq_append [simp]:
  "c \<notin> set xs \<Longrightarrow> dropWhile (\<lambda>x. x \<noteq> c) (xs @ c # ys) = c # ys"
  by (induction xs) auto

lemma split_at_first:
  assumes "c \<in> set xs"
  shows "\<exists>ys. xs = takeWhile (\<lambda>x. x \<noteq> c) xs @ c # ys"
proof -
  from assms have "dropWhile (\<lambda>x. x \<noteq> c) xs \<noteq> []"
    by auto
  then obtain y ys where d: "dropWhile (\<lambda>x. x \<noteq> c) xs = y # ys"
    by (cases "dropWhile (\<lambda>x. x \<noteq> c) xs") auto
  then have "y = c"
    using hd_dropWhile [of "\<lambda>x. x \<noteq> c" xs] by auto
  with d show ?thesis
    by (metis takeWhile_dropWhile_id)
qed

lemma takeWhile_neq_absent [simp]: "c \<notin> set xs \<Longrightarrow> takeWhile (\<lambda>x. x \<noteq> c) xs = xs"
  by (induction xs) auto

lemma not_in_takeWhile_neq [simp]: "c \<notin> set (takeWhile (\<lambda>x. x \<noteq> c) xs)"
  by (induction xs) auto

end
