(* ===== verification/Rust_Str.thy ===== *)
theory Rust_Str
  imports Prelude
begin

text \<open>
  Rust's \<open>char\<close>, \<open>str\<close> and \<open>String\<close> as the program uses them.  A \<open>char\<close> is its Unicode scalar
  value, a string the list of its characters; byte offsets (what \<open>find\<close> returns and slices take)
  count the bytes of the UTF-8 encoding, and a slice off a character boundary panics.
\<close>

section \<open>Characters and UTF-8\<close>

type_synonym rchar = nat
type_synonym rstr = "rchar list"

definition lit :: "string \<Rightarrow> rstr" where
  "lit s = map of_char s"

definition scalar :: "rchar \<Rightarrow> bool" where
  "scalar c \<longleftrightarrow> c < 55296 \<or> (57344 \<le> c \<and> c < 1114112)"

definition valid_str :: "rstr \<Rightarrow> bool" where
  "valid_str s \<longleftrightarrow> (\<forall>c \<in> set s. scalar c)"

definition len_utf8 :: "rchar \<Rightarrow> nat" where
  "len_utf8 c = (if c < 128 then 1 else if c < 2048 then 2 else if c < 65536 then 3 else 4)"

definition utf8_char :: "rchar \<Rightarrow> byte list" where
  "utf8_char c =
    (if c < 128 then [u8_of c]
     else if c < 2048 then
       [u8_of (192 + c div 64), u8_of (128 + c mod 64)]
     else if c < 65536 then
       [u8_of (224 + c div 4096), u8_of (128 + c div 64 mod 64),
        u8_of (128 + c mod 64)]
     else
       [u8_of (240 + c div 262144), u8_of (128 + c div 4096 mod 64),
        u8_of (128 + c div 64 mod 64), u8_of (128 + c mod 64)])"

definition as_bytes :: "rstr \<Rightarrow> byte list" where
  "as_bytes s = concat (map utf8_char s)"

definition str_len :: "rstr \<Rightarrow> nat" where
  "str_len s = length (as_bytes s)"

lemma len_utf8_pos [simp]: "0 < len_utf8 c"
  by (simp add: len_utf8_def)

lemma length_utf8_char [simp]: "length (utf8_char c) = len_utf8 c"
  by (simp add: utf8_char_def len_utf8_def)

lemma as_bytes_Nil [simp]: "as_bytes [] = []"
  by (simp add: as_bytes_def)

lemma as_bytes_Cons [simp]: "as_bytes (c # s) = utf8_char c @ as_bytes s"
  by (simp add: as_bytes_def)

lemma as_bytes_append [simp]: "as_bytes (s @ t) = as_bytes s @ as_bytes t"
  by (simp add: as_bytes_def)

lemma str_len_simps [simp]:
  "str_len [] = 0" "str_len (c # s) = len_utf8 c + str_len s"
  "str_len (s @ t) = str_len s + str_len t"
  by (simp_all add: str_len_def)

lemma length_as_bytes [simp]: "length (as_bytes s) = str_len s"
  by (simp add: str_len_def)

lemma str_len_0_iff [simp]: "str_len s = 0 \<longleftrightarrow> s = []"
  by (cases s) simp_all

lemma valid_str_simps [simp]:
  "valid_str []" "valid_str (c # s) \<longleftrightarrow> scalar c \<and> valid_str s"
  "valid_str (s @ t) \<longleftrightarrow> valid_str s \<and> valid_str t"
  by (auto simp: valid_str_def)

lemma utf8_char_ascii [simp]: "c < 128 \<Longrightarrow> utf8_char c = [u8_of c]"
  by (simp add: utf8_char_def)

lemma len_utf8_ascii [simp]: "c < 128 \<Longrightarrow> len_utf8 c = 1"
  by (simp add: len_utf8_def)

lemma lit_inject [simp]: "lit a = lit b \<longleftrightarrow> a = b"
proof -
  have "inj (of_char :: char \<Rightarrow> nat)"
    by (rule injI) simp
  then show ?thesis by (simp add: lit_def inj_map_eq_map)
qed

lemma lit_append: "lit (a @ b) = lit a @ lit b"
  by (simp add: lit_def)

lemma u8_of_numeral: "u8_of (numeral k) = numeral k"
  by (simp add: u8_of_def)

text \<open>An ASCII byte occurs in the encoding exactly where its character occurs in the string.\<close>

lemma utf8_char_high:
  assumes "scalar c" and "128 \<le> c" and "b \<in> set (utf8_char c)"
  shows "128 \<le> unat b"
proof -
  have "c div 64 < 32" if "c < 2048" using that by linarith
  moreover have "c div 4096 < 16" if "c < 65536" using that by linarith
  moreover have "c div 262144 < 5" using assms(1) unfolding scalar_def by linarith
  ultimately show ?thesis
    using assms(2,3) by (auto simp: utf8_char_def split: if_splits)
qed

lemma u8_of_in_utf8_char:
  assumes "scalar c" and "k < 128"
  shows "u8_of k \<in> set (utf8_char c) \<longleftrightarrow> c = k"
proof (cases "c < 128")
  case True
  with assms show ?thesis by (auto simp: u8_of_inject)
next
  case False
  then show ?thesis
    using utf8_char_high [OF assms(1), of "u8_of k"] assms(2) by auto
qed

lemma u8_of_in_as_bytes:
  "valid_str s \<Longrightarrow> k < 128 \<Longrightarrow> u8_of k \<in> set (as_bytes s) \<longleftrightarrow> k \<in> set s"
  by (induction s) (auto simp: u8_of_in_utf8_char)

subsection \<open>Lossy decoding\<close>

text \<open>
  \<open>String::from_utf8_lossy\<close>: a well-formed sequence gives its character, a maximal ill-formed one
  gives U+FFFD.  \<open>safe_get\<close> reads past the end as 0, as the library's decoder does.
\<close>

definition safe_get :: "byte list \<Rightarrow> nat \<Rightarrow> nat" where
  "safe_get xs i = (if i < length xs then unat (xs ! i) else 0)"

definition is_cont :: "nat \<Rightarrow> bool" where
  "is_cont n \<longleftrightarrow> 128 \<le> n \<and> n < 192"

definition second3 :: "nat \<Rightarrow> nat \<Rightarrow> bool" where
  "second3 b c \<longleftrightarrow>
     (if b = 224 then 160 \<le> c \<and> c < 192
      else if b = 237 then 128 \<le> c \<and> c < 160 else is_cont c)"

definition second4 :: "nat \<Rightarrow> nat \<Rightarrow> bool" where
  "second4 b c \<longleftrightarrow>
     (if b = 240 then 144 \<le> c \<and> c < 192
      else if b = 244 then 128 \<le> c \<and> c < 144 else is_cont c)"

definition utf8_step :: "byte list \<Rightarrow> rchar \<times> nat" where
  "utf8_step xs =
    (let b = safe_get xs 0; c1 = safe_get xs 1; c2 = safe_get xs 2; c3 = safe_get xs 3 in
     if b < 128 then (b, 1)
     else if 194 \<le> b \<and> b < 224 then
       (if is_cont c1 then ((b - 192) * 64 + (c1 - 128), 2) else (65533, 1))
     else if 224 \<le> b \<and> b < 240 then
       (if second3 b c1 then
          (if is_cont c2 then ((b - 224) * 4096 + (c1 - 128) * 64 + (c2 - 128), 3)
           else (65533, 2))
        else (65533, 1))
     else if 240 \<le> b \<and> b < 245 then
       (if second4 b c1 then
          (if is_cont c2 then
             (if is_cont c3 then
                ((b - 240) * 262144 + (c1 - 128) * 4096 + (c2 - 128) * 64 + (c3 - 128), 4)
              else (65533, 3))
           else (65533, 2))
        else (65533, 1))
     else (65533, 1))"

lemma safe_get_Cons [simp]:
  "safe_get (b # xs) 0 = unat b" "safe_get (b # xs) (Suc i) = safe_get xs i"
  "safe_get (b # xs) (numeral k) = safe_get xs (pred_numeral k)"
  by (simp_all add: safe_get_def numeral_eq_Suc)

lemma utf8_step_pos: "0 < snd (utf8_step xs)"
  by (simp add: utf8_step_def Let_def)

function from_utf8_lossy :: "byte list \<Rightarrow> rstr" where
  "from_utf8_lossy xs =
    (if xs = [] then []
     else fst (utf8_step xs) # from_utf8_lossy (drop (snd (utf8_step xs)) xs))"
  by pat_completeness auto
termination
  by (relation "measure length") (auto simp: utf8_step_pos)

declare from_utf8_lossy.simps [simp del]

lemma from_utf8_lossy_Nil [simp]: "from_utf8_lossy [] = []"
  by (simp add: from_utf8_lossy.simps)

lemma utf8_step_2:
  assumes "194 \<le> b" "b < 224" "is_cont c1"
    and "safe_get xs 0 = b" "safe_get xs 1 = c1"
  shows "utf8_step xs = ((b - 192) * 64 + (c1 - 128), 2)"
  using assms by (simp add: utf8_step_def)

lemma utf8_step_3:
  assumes "224 \<le> b" "b < 240" "second3 b c1" "is_cont c2"
    and "safe_get xs 0 = b" "safe_get xs 1 = c1" "safe_get xs 2 = c2"
  shows "utf8_step xs = ((b - 224) * 4096 + (c1 - 128) * 64 + (c2 - 128), 3)"
  using assms by (simp add: utf8_step_def)

lemma utf8_step_4:
  assumes "240 \<le> b" "b < 245" "second4 b c1" "is_cont c2" "is_cont c3"
    and "safe_get xs 0 = b" "safe_get xs 1 = c1" "safe_get xs 2 = c2" "safe_get xs 3 = c3"
  shows "utf8_step xs =
    ((b - 240) * 262144 + (c1 - 128) * 4096 + (c2 - 128) * 64 + (c3 - 128), 4)"
  using assms by (simp add: utf8_step_def)

lemma utf8_step_char:
  assumes "scalar c"
  shows "utf8_step (utf8_char c @ ys) = (c, len_utf8 c)"
proof -
  let ?x = "c div 64" and ?y = "c div 64 div 64"
  have x: "c div 4096 = ?y" "c div 262144 = ?y div 64"
    by (simp_all flip: div_mult2_eq)
  have c: "?x * 64 + c mod 64 = c" and xx: "?y * 64 + ?x mod 64 = ?x"
    and yy: "?y div 64 * 64 + ?y mod 64 = ?y"
    by (simp_all only: div_mult_mod_eq)
  have m: "?y mod 64 < 64" "?x mod 64 < 64" "c mod 64 < 64" by simp_all
  have cont: "is_cont (128 + n mod 64)" for n
    by (simp add: is_cont_def less_le_trans [OF mod_less_divisor])
  consider (one) "c < 128" | (two) "128 \<le> c" "c < 2048"
    | (three) "2048 \<le> c" "c < 65536" | (four) "65536 \<le> c" "c < 1114112"
    using assms unfolding scalar_def by linarith
  then show ?thesis
  proof cases
    case one
    then show ?thesis
      by (simp add: utf8_step_def)
  next
    case two
    then have r: "?x < 32" "2 \<le> ?x" by simp_all
    then show ?thesis
      using two by (simp add: utf8_step_2 [where b = "192 + ?x", OF _ _ cont [of c]]
          utf8_char_def len_utf8_def)
  next
    case three
    have hi: "?y < 16" using three c xx by linarith
    have lo: "32 \<le> ?x mod 64" if "?y = 0"
      using three that c xx m by linarith
    have su: "?x mod 64 < 32" if "?y = 13"
      using three assms that c xx m unfolding scalar_def by linarith
    have "second3 (224 + ?y) (128 + ?x mod 64)"
      using m lo su by (auto simp: second3_def is_cont_def)
    then have "utf8_step (utf8_char c @ ys) = (?y * 4096 + ?x mod 64 * 64 + c mod 64, 3)"
      using three hi by (simp add: utf8_step_3 [where b = "224 + ?y", OF _ _ _ cont [of c]]
          utf8_char_def x)
    moreover have "?y * 4096 + ?x mod 64 * 64 + c mod 64 = c"
      using c xx by linarith
    ultimately show ?thesis
      using three by (simp add: len_utf8_def)
  next
    case four
    have hi: "?y div 64 < 5" using four c xx yy by linarith
    have lo: "16 \<le> ?y mod 64" if "?y div 64 = 0"
      using four that c xx yy m by linarith
    have su: "?y mod 64 < 16" if "?y div 64 = 4"
      using four that c xx yy m by linarith
    have "second4 (240 + ?y div 64) (128 + ?y mod 64)"
      using m lo su by (auto simp: second4_def is_cont_def)
    then have "utf8_step (utf8_char c @ ys) =
        (?y div 64 * 262144 + ?y mod 64 * 4096 + ?x mod 64 * 64 + c mod 64, 4)"
      using four hi by (simp add: utf8_step_4 [where b = "240 + ?y div 64", OF _ _ _ cont [of ?x] cont [of c]]
          utf8_char_def x)
    moreover have "?y div 64 * 262144 + ?y mod 64 * 4096 + ?x mod 64 * 64 + c mod 64 = c"
      using c xx yy by linarith
    ultimately show ?thesis
      using four by (simp add: len_utf8_def)
  qed
qed

lemma from_utf8_lossy_char:
  assumes "scalar c"
  shows "from_utf8_lossy (utf8_char c @ ys) = c # from_utf8_lossy ys"
proof -
  have "utf8_char c @ ys \<noteq> []"
    by (metis append_is_Nil_conv len_utf8_pos length_utf8_char less_numeral_extra(3) list.size(3))
  then show ?thesis
    by (subst from_utf8_lossy.simps) (simp add: utf8_step_char [OF assms])
qed

lemma from_utf8_lossy_as_bytes:
  "valid_str s \<Longrightarrow> from_utf8_lossy (as_bytes s) = s"
  by (induction s) (simp_all add: from_utf8_lossy_char)

text \<open>Decoding always gives valid characters.\<close>

lemma scalar_if: "(c \<Longrightarrow> scalar a) \<Longrightarrow> (\<not> c \<Longrightarrow> scalar b) \<Longrightarrow> scalar (if c then a else b)"
  by simp

lemma utf8_step_scalar: "scalar (fst (utf8_step xs))"
proof -
  have two: "scalar ((b - 192) * 64 + (c - 128))" if "194 \<le> b" "b < 224" "is_cont c" for b c
  proof -
    have "b - 192 \<le> 31" "c - 128 \<le> 63" using that unfolding is_cont_def by linarith+
    then have "(b - 192) * 64 + (c - 128) < 55296" by linarith
    then show ?thesis by (simp add: scalar_def)
  qed
  have three: "scalar ((b - 224) * 4096 + (c1 - 128) * 64 + (c2 - 128))"
    if hyps: "224 \<le> b" "b < 240" "second3 b c1" "is_cont c2" for b c1 c2
  proof -
    have c2: "c2 - 128 \<le> 63" using hyps(4) unfolding is_cont_def by linarith
    have c1: "c1 - 128 \<le> 63" using hyps(3) by (auto simp: second3_def is_cont_def split: if_splits)
    have "b - 224 \<le> 12 \<or> (b - 224 = 13 \<and> c1 - 128 \<le> 31) \<or> (14 \<le> b - 224 \<and> b - 224 \<le> 15)"
    proof (cases "b = 237")
      case True
      with hyps(3) show ?thesis by (auto simp: second3_def)
    next
      case False
      with hyps(1,2) show ?thesis by linarith
    qed
    then have "(b - 224) * 4096 + (c1 - 128) * 64 + (c2 - 128) < 55296 \<or>
        (57344 \<le> (b - 224) * 4096 + (c1 - 128) * 64 + (c2 - 128) \<and>
         (b - 224) * 4096 + (c1 - 128) * 64 + (c2 - 128) < 1114112)"
      using c1 c2 by (elim disjE conjE) linarith+
    then show ?thesis by (simp only: scalar_def)
  qed
  have four: "scalar ((b - 240) * 262144 + (c1 - 128) * 4096 + (c2 - 128) * 64 + (c3 - 128))"
    if hyps: "240 \<le> b" "b < 245" "second4 b c1" "is_cont c2" "is_cont c3" for b c1 c2 c3
  proof -
    have c: "c2 - 128 \<le> 63" "c3 - 128 \<le> 63" using hyps(4,5) unfolding is_cont_def by linarith+
    have "(b - 240 = 0 \<and> 16 \<le> c1 - 128 \<and> c1 - 128 \<le> 63) \<or>
        (1 \<le> b - 240 \<and> b - 240 \<le> 3 \<and> c1 - 128 \<le> 63) \<or> (b - 240 = 4 \<and> c1 - 128 \<le> 15)"
    proof (cases "b = 240 \<or> b = 244")
      case True
      with hyps(3) show ?thesis by (auto simp: second4_def)
    next
      case False
      then have "c1 - 128 \<le> 63" using hyps(3) by (auto simp: second4_def is_cont_def)
      with False hyps(1,2) show ?thesis by linarith
    qed
    then have "57344 \<le> (b - 240) * 262144 + (c1 - 128) * 4096 + (c2 - 128) * 64 + (c3 - 128) \<and>
         (b - 240) * 262144 + (c1 - 128) * 4096 + (c2 - 128) * 64 + (c3 - 128) < 1114112"
      using c by (elim disjE conjE) linarith+
    then show ?thesis by (simp only: scalar_def) simp
  qed
  have bad: "scalar 65533" and low: "\<And>b. b < 128 \<Longrightarrow> scalar b"
    by (simp_all add: scalar_def)
  show ?thesis
    unfolding utf8_step_def Let_def if_distrib [of fst] fst_conv
    by (intro scalar_if bad) (simp_all only: two three four low)
qed

lemma from_utf8_lossy_valid: "valid_str (from_utf8_lossy xs)"
proof (induction xs rule: from_utf8_lossy.induct)
  case (1 xs)
  then show ?case
    by (subst from_utf8_lossy.simps) (simp add: utf8_step_scalar)
qed
lemma as_bytes_inject: "valid_str s \<Longrightarrow> valid_str t \<Longrightarrow> as_bytes s = as_bytes t \<longleftrightarrow> s = t"
  by (metis from_utf8_lossy_as_bytes)

section \<open>Searching and slicing by byte offset\<close>

text \<open>\<open>str::find\<close> with a character: the byte offset of its first occurrence.\<close>

fun str_find :: "rchar \<Rightarrow> rstr \<Rightarrow> nat option" where
  "str_find c [] = None"
| "str_find c (x # xs) =
     (if x = c then Some 0 else map_option (\<lambda>i. len_utf8 x + i) (str_find c xs))"

fun split_at_byte :: "rstr \<Rightarrow> nat \<Rightarrow> (rstr \<times> rstr) option" where
  "split_at_byte [] n = (if n = 0 then Some ([], []) else None)"
| "split_at_byte (c # cs) n =
     (if n = 0 then Some ([], c # cs)
      else if len_utf8 c \<le> n then
        map_option (\<lambda>(a, b). (c # a, b)) (split_at_byte cs (n - len_utf8 c))
      else None)"

text \<open>\<open>&s[..n]\<close> and \<open>&s[n..]\<close>: a panic past the end or inside a character.\<close>

definition slice_to :: "rstr \<Rightarrow> nat \<Rightarrow> rstr res" where
  "slice_to s n = (case split_at_byte s n of None \<Rightarrow> Panic | Some (a, b) \<Rightarrow> Ok a)"

definition slice_from :: "rstr \<Rightarrow> nat \<Rightarrow> rstr res" where
  "slice_from s n = (case split_at_byte s n of None \<Rightarrow> Panic | Some (a, b) \<Rightarrow> Ok b)"

lemma split_at_byte_append: "split_at_byte (a @ b) (str_len a) = Some (a, b)"
proof (induction a)
  case Nil
  then show ?case by (cases b) auto
next
  case (Cons c a)
  then show ?case by simp
qed

lemma split_at_byte_Some:
  "split_at_byte s n = Some (a, b) \<Longrightarrow> s = a @ b \<and> n = str_len a"
  by (induction s n arbitrary: a b rule: split_at_byte.induct) (auto split: if_splits)

lemma slice_to_append [simp]: "slice_to (a @ b) (str_len a) = Ok a"
  by (simp add: slice_to_def split_at_byte_append)

lemma slice_from_append [simp]: "slice_from (a @ b) (str_len a) = Ok b"
  by (simp add: slice_from_def split_at_byte_append)

lemma str_find_None_iff: "str_find c s = None \<longleftrightarrow> c \<notin> set s"
  by (induction s) auto

lemma str_find_absent [simp]: "c \<notin> set s \<Longrightarrow> str_find c s = None"
  by (simp add: str_find_None_iff)

lemma str_find_append: "c \<notin> set a \<Longrightarrow> str_find c (a @ c # b) = Some (str_len a)"
  by (induction a) auto

lemma str_find_Some:
  assumes "str_find c s = Some i"
  shows "\<exists>b. s = takeWhile (\<lambda>x. x \<noteq> c) s @ c # b \<and> i = str_len (takeWhile (\<lambda>x. x \<noteq> c) s)"
proof -
  from assms have "c \<in> set s"
    using str_find_None_iff [of c s] by auto
  then obtain b where b: "s = takeWhile (\<lambda>x. x \<noteq> c) s @ c # b"
    using split_at_first by fast
  have "str_find c s = Some (str_len (takeWhile (\<lambda>x. x \<noteq> c) s))"
    using str_find_append [of c "takeWhile (\<lambda>x. x \<noteq> c) s" b] b by simp
  with assms b show ?thesis by auto
qed

text \<open>A slice at the offset of an ASCII character that was found, and just after it.\<close>

lemma slice_at_found:
  assumes "c \<notin> set a"
  shows "slice_to (a @ c # b) (str_len a) = Ok a"
  by simp

lemma slice_after_found:
  assumes "c < 128"
  shows "slice_from (a @ c # b) (str_len a + 1) = Ok b"
proof -
  have "str_len (a @ [c]) = str_len a + 1" using assms by simp
  then show ?thesis
    using slice_from_append [of "a @ [c]" b] by simp
qed

section \<open>Splitting at a separator\<close>

fun split_on :: "rchar \<Rightarrow> rstr \<Rightarrow> rstr list" where
  "split_on c [] = [[]]"
| "split_on c (x # xs) =
     (if x = c then [] # split_on c xs
      else (case split_on c xs of [] \<Rightarrow> [[x]] | y # ys \<Rightarrow> (x # y) # ys))"

fun join_with :: "rchar \<Rightarrow> rstr list \<Rightarrow> rstr" where
  "join_with c [] = []"
| "join_with c [x] = x"
| "join_with c (x # y # zs) = x @ c # join_with c (y # zs)"

lemma split_on_no_sep: "c \<notin> set xs \<Longrightarrow> split_on c xs = [xs]"
  by (induction xs) auto

lemma split_on_append: "c \<notin> set xs \<Longrightarrow> split_on c (xs @ c # ys) = xs # split_on c ys"
  by (induction xs) auto

lemma split_on_not_Nil [simp]: "split_on c s \<noteq> []"
  by (induction s) (auto split: list.splits)

lemma split_on_append_sep: "split_on c (s @ c # t) = split_on c s @ split_on c t"
  by (induction s) (auto split: list.splits)

lemma split_on_join_with:
  "xss \<noteq> [] \<Longrightarrow> \<forall>xs \<in> set xss. c \<notin> set xs \<Longrightarrow> split_on c (join_with c xss) = xss"
  by (induction c xss rule: join_with.induct) (auto simp: split_on_no_sep split_on_append)

lemma split_on_pieces: "xs \<in> set (split_on c s) \<Longrightarrow> c \<notin> set xs"
  by (induction s arbitrary: xs) (auto split: list.splits if_splits)

section \<open>Case conversion\<close>

text \<open>
  \<open>str::to_lowercase\<close> maps an ASCII string letter by letter.  A string with a character outside
  ASCII goes through Unicode's case tables (with their context rules), which \<open>uni\<close> stands for.
\<close>

definition ascii_lower :: "rchar \<Rightarrow> rchar" where
  "ascii_lower c = (if 65 \<le> c \<and> c \<le> 90 then c + 32 else c)"

definition is_ascii_str :: "rstr \<Rightarrow> bool" where
  "is_ascii_str s = list_all (\<lambda>c. c < 128) s"

definition to_lowercase :: "(rstr \<Rightarrow> rstr) \<Rightarrow> rstr \<Rightarrow> rstr" where
  "to_lowercase uni s = (if is_ascii_str s then map ascii_lower s else uni s)"

lemma ascii_lower_idem [simp]: "ascii_lower (ascii_lower c) = ascii_lower c"
  by (simp add: ascii_lower_def)

lemma to_lowercase_ascii: "is_ascii_str s \<Longrightarrow> to_lowercase uni s = map ascii_lower s"
  by (simp add: to_lowercase_def)

section \<open>Numbers as text\<close>

text \<open>\<open>to_string\<close> of an unsigned integer.\<close>

fun show_nat :: "nat \<Rightarrow> rstr" where
  "show_nat n = (if n < 10 then [48 + n] else show_nat (n div 10) @ [48 + n mod 10])"

declare show_nat.simps [simp del]

text \<open>\<open>char::to_digit\<close> for the radices up to 16 the program uses.\<close>

definition to_digit :: "nat \<Rightarrow> rchar \<Rightarrow> nat option" where
  "to_digit radix c =
    (let d = (if 48 \<le> c \<and> c \<le> 57 then c - 48
              else if 97 \<le> c \<and> c \<le> 122 then c - 97 + 10
              else if 65 \<le> c \<and> c \<le> 90 then c - 65 + 10
              else radix)
     in if d < radix then Some d else None)"

text \<open>The digit loop of \<open>from_str_radix\<close>, with its checked multiplication and addition.\<close>

fun parse_digits :: "nat \<Rightarrow> nat \<Rightarrow> nat \<Rightarrow> rstr \<Rightarrow> nat option" where
  "parse_digits radix bits acc [] = Some acc"
| "parse_digits radix bits acc (c # cs) =
     (case to_digit radix c of
        None \<Rightarrow> None
      | Some d \<Rightarrow>
          if acc * radix + d < 2 ^ bits then parse_digits radix bits (acc * radix + d) cs
          else None)"

text \<open>
  \<open>from_str_radix\<close> (and \<open>str::parse\<close>, radix 10) of an unsigned type: the empty string and a lone
  sign are errors, one leading \<open>+\<close> is skipped.
\<close>

definition parse_uint :: "nat \<Rightarrow> nat \<Rightarrow> rstr \<Rightarrow> nat option" where
  "parse_uint radix bits s =
    (case s of
       [] \<Rightarrow> None
     | c # cs \<Rightarrow>
         if cs = [] \<and> (c = 43 \<or> c = 45) then None
         else if c = 43 then parse_digits radix bits 0 cs
         else parse_digits radix bits 0 (c # cs))"

lemma parse_digits_bound:
  "parse_digits radix bits acc s = Some n \<Longrightarrow> acc < 2 ^ bits \<Longrightarrow> n < 2 ^ bits"
  by (induction radix bits acc s rule: parse_digits.induct) (auto split: option.splits if_splits)

lemma parse_uint_bound: "parse_uint radix bits s = Some n \<Longrightarrow> n < 2 ^ bits"
  by (auto simp: parse_uint_def simp del: parse_digits.simps intro: parse_digits_bound
      split: list.splits if_splits)

lemma to_digit_less: "to_digit r c = Some d \<Longrightarrow> d < r"
  by (auto simp: to_digit_def Let_def split: if_splits)

lemma to_digit_sign [simp]: "to_digit r 43 = None" "to_digit r 45 = None"
  by (simp_all add: to_digit_def)

text \<open>Two characters read as a hexadecimal byte: the first may be a plus sign.\<close>

lemma parse_uint_two_hex:
  "parse_uint 16 8 [h1, h2] =
    (case to_digit 16 h2 of
       None \<Rightarrow> None
     | Some d2 \<Rightarrow> if h1 = 43 then Some d2 else map_option (\<lambda>d1. d1 * 16 + d2) (to_digit 16 h1))"
proof -
  have "d1 * 16 + d2 < 256" "d1 < 256" "d2 < 256"
    if "to_digit 16 h1 = Some d1" "to_digit 16 h2 = Some d2" for d1 d2
    using to_digit_less [OF that(1)] to_digit_less [OF that(2)] by simp_all
  moreover have "d2 < 256" if "to_digit 16 h2 = Some d2" for d2
    using to_digit_less [OF that] by simp
  ultimately show ?thesis
    by (auto simp: parse_uint_def split: option.splits)
qed

lemma to_digit_dec: "to_digit 10 (48 + d) = (if d < 10 then Some d else None)"
  by (auto simp: to_digit_def Let_def)

lemma parse_digits_append:
  "parse_digits radix bits acc (xs @ ys) =
     (case parse_digits radix bits acc xs of None \<Rightarrow> None | Some a \<Rightarrow> parse_digits radix bits a ys)"
  by (induction radix bits acc xs rule: parse_digits.induct) (auto split: option.splits)

lemma parse_digits_show_nat: "n < 2 ^ bits \<Longrightarrow> parse_digits 10 bits 0 (show_nat n) = Some n"
proof (induction n rule: show_nat.induct)
  case (1 n)
  show ?case
  proof (cases "n < 10")
    case True
    with "1.prems" show ?thesis
      by (simp add: show_nat.simps [of n] to_digit_dec)
  next
    case False
    moreover have "n div 10 < 2 ^ bits"
      using "1.prems" by (rule le_less_trans [OF div_le_dividend])
    ultimately have "parse_digits 10 bits 0 (show_nat (n div 10)) = Some (n div 10)"
      using "1.IH" by simp
    with False "1.prems" show ?thesis
      by (simp add: show_nat.simps [of n] parse_digits_append to_digit_dec)
  qed
qed

lemma parse_digits_show_nat_overflow:
  "2 ^ bits \<le> n \<Longrightarrow> parse_digits 10 bits 0 (show_nat n) = None"
proof (induction n rule: show_nat.induct)
  case (1 n)
  show ?case
  proof (cases "n < 10")
    case True
    with "1.prems" show ?thesis
      by (simp add: show_nat.simps [of n] to_digit_dec)
  next
    case False
    show ?thesis
    proof (cases "2 ^ bits \<le> n div 10")
      case True
      with False "1.IH" show ?thesis
        by (simp add: show_nat.simps [of n] parse_digits_append)
    next
      case fits: False
      then have "parse_digits 10 bits 0 (show_nat (n div 10)) = Some (n div 10)"
        by (simp add: parse_digits_show_nat)
      with False "1.prems" show ?thesis
        by (simp add: show_nat.simps [of n] parse_digits_append to_digit_dec)
    qed
  qed
qed

lemma show_nat_not_Nil [simp]: "show_nat n \<noteq> []"
  by (subst show_nat.simps) simp

lemma show_nat_digits: "c \<in> set (show_nat n) \<Longrightarrow> 48 \<le> c \<and> c \<le> 57"
proof (induction n rule: show_nat.induct)
  case (1 n)
  then show ?case
    by (subst (asm) show_nat.simps [of n]) (auto split: if_splits)
qed

text \<open>Printing a number and parsing it back gives the number, when it fits the type.\<close>

lemma parse_uint_show_nat:
  "parse_uint 10 bits (show_nat n) = (if n < 2 ^ bits then Some n else None)"
proof -
  obtain c cs where s: "show_nat n = c # cs" by (cases "show_nat n") auto
  then have "48 \<le> c" using show_nat_digits [of c n] by simp
  with s have "parse_uint 10 bits (show_nat n) = parse_digits 10 bits 0 (show_nat n)"
    by (simp add: parse_uint_def)
  then show ?thesis
    by (simp add: parse_digits_show_nat parse_digits_show_nat_overflow)
qed

section \<open>Percent-encoding\<close>

text \<open>The reference encoder: every byte as a percent sign and two upper-case hex digits.\<close>

definition hex_digit :: "nat \<Rightarrow> rchar" where
  "hex_digit d = (if d < 10 then 48 + d else 55 + d)"

definition percent_encode :: "byte list \<Rightarrow> rstr" where
  "percent_encode bs =
    concat (map (\<lambda>b. [37, hex_digit (unat b div 16), hex_digit (unat b mod 16)]) bs)"

lemma percent_encode_simps [simp]:
  "percent_encode [] = []"
  "percent_encode (b # bs) =
     37 # hex_digit (unat b div 16) # hex_digit (unat b mod 16) # percent_encode bs"
  by (simp_all add: percent_encode_def)

lemma to_digit_hex_digit: "d < 16 \<Longrightarrow> to_digit 16 (hex_digit d) = Some d"
  by (simp add: to_digit_def hex_digit_def)

lemma hex_digit_not_sign: "hex_digit d \<noteq> 43" "hex_digit d \<noteq> 45" "hex_digit d \<noteq> 38"
  "hex_digit d \<noteq> 61" "hex_digit d \<noteq> 63"
  if "d < 16" using that by (auto simp: hex_digit_def)

lemma percent_encode_chars: "c \<in> set (percent_encode bs) \<Longrightarrow> c \<noteq> 38 \<and> c \<noteq> 61 \<and> c \<noteq> 63"
proof (induction bs)
  case (Cons b bs)
  have "unat b div 16 < 16" and "unat b mod 16 < 16"
    using unat_byte_less [of b] by (simp_all add: less_mult_imp_div_less del: unat_byte_less)
  with Cons show ?case
    by (auto simp: hex_digit_not_sign)
qed simp

lemma parse_hex_byte:
  "parse_uint 16 8 [hex_digit (unat (b :: byte) div 16), hex_digit (unat b mod 16)] = Some (unat b)"
proof -
  have d: "unat b div 16 < 16" "unat b mod 16 < 16"
    using unat_byte_less [of b] by (simp_all add: less_mult_imp_div_less del: unat_byte_less)
  then have "unat b div 16 < 256" by linarith
  with d show ?thesis
    by (simp add: parse_uint_def to_digit_hex_digit hex_digit_not_sign)
qed

text \<open>A string is its own UTF-8 byte sequence exactly when it is ASCII.\<close>

lemma length_le_str_len: "length s \<le> str_len s"
proof (induction s)
  case (Cons c s)
  then show ?case using len_utf8_pos [of c] by (simp del: len_utf8_pos)
qed simp

lemma map_unat_as_bytes_iff: "map unat (as_bytes s) = s \<longleftrightarrow> is_ascii_str s"
proof
  assume "is_ascii_str s"
  then show "map unat (as_bytes s) = s"
    by (induction s) (auto simp: is_ascii_str_def)
next
  assume "map unat (as_bytes s) = s"
  then have "str_len s = length s"
    unfolding str_len_def by (metis length_map)
  then show "is_ascii_str s"
  proof (induction s)
    case (Cons c s)
    then have "len_utf8 c = 1 \<and> str_len s = length s"
      using length_le_str_len [of s] len_utf8_pos [of c] by (simp del: len_utf8_pos)
    with Cons.IH show ?case
      by (auto simp: is_ascii_str_def len_utf8_def split: if_splits)
  qed (simp add: is_ascii_str_def)
qed

end
