(* ===== verification/Rust_Fmt.thy ===== *)
theory Rust_Fmt
  imports Rust_Str
begin

text \<open>
  The text processing of the tools around the server: trimming, lines and words, searching and
  replacing, signed numbers read and printed.  Everything is what the standard library documents for
  \<open>str\<close>, \<open>i32\<close> and \<open>format!\<close>.
\<close>

section \<open>White space, lines and words\<close>

text \<open>The characters with Unicode's \<open>White_Space\<close> property.\<close>

definition is_whitespace :: "rchar \<Rightarrow> bool" where
  "is_whitespace c \<longleftrightarrow>
    (9 \<le> c \<and> c \<le> 13) \<or> c = 32 \<or> c = 133 \<or> c = 160 \<or> c = 5760 \<or> (8192 \<le> c \<and> c \<le> 8202) \<or>
    c = 8232 \<or> c = 8233 \<or> c = 8239 \<or> c = 8287 \<or> c = 12288"

definition trim_start :: "rstr \<Rightarrow> rstr" where
  "trim_start s = dropWhile is_whitespace s"

definition trim_end :: "rstr \<Rightarrow> rstr" where
  "trim_end s = rev (dropWhile is_whitespace (rev s))"

definition trim :: "rstr \<Rightarrow> rstr" where
  "trim s = trim_end (trim_start s)"

text \<open>\<open>split_whitespace\<close>: the words between runs of white space, without empty ones.\<close>

fun words_loop :: "rstr \<Rightarrow> rstr \<Rightarrow> rstr list" where
  "words_loop w [] = (if w = [] then [] else [w])"
| "words_loop w (c # cs) =
    (if is_whitespace c then (if w = [] then [] else [w]) @ words_loop [] cs
     else words_loop (w @ [c]) cs)"

definition split_whitespace :: "rstr \<Rightarrow> rstr list" where
  "split_whitespace s = words_loop [] s"

text \<open>
  \<open>lines\<close>: split after each line feed, the line feed and a carriage return before it dropped; text
  that ends with a line feed has no empty line after it.
\<close>

definition strip_cr :: "rstr \<Rightarrow> rstr" where
  "strip_cr l = (if l \<noteq> [] \<and> last l = 13 then butlast l else l)"

fun lines_loop :: "rstr \<Rightarrow> rstr \<Rightarrow> rstr list" where
  "lines_loop l [] = (if l = [] then [] else [l])"
| "lines_loop l (c # cs) = (if c = 10 then strip_cr l # lines_loop [] cs else lines_loop (l @ [c]) cs)"

definition str_lines :: "rstr \<Rightarrow> rstr list" where
  "str_lines s = lines_loop [] s"

lemma dropWhile_all_append: "\<forall>c \<in> set a. P c \<Longrightarrow> dropWhile P (a @ b) = dropWhile P b"
  by (induction a) auto

lemma dropWhile_hd: "s = [] \<or> \<not> P (hd s) \<Longrightarrow> dropWhile P s = s"
  by (cases s) auto

text \<open>Trimming removes exactly the white space around a text that starts and ends without any.\<close>

lemma trim_padded:
  assumes "\<forall>c \<in> set a. is_whitespace c" and "\<forall>c \<in> set b. is_whitespace c"
    and "s \<noteq> []" and "\<not> is_whitespace (hd s)" and "\<not> is_whitespace (last s)"
  shows "trim (a @ s @ b) = s"
proof -
  have "trim_start (a @ s @ b) = s @ b"
    using assms(1,3,4) by (simp add: trim_start_def dropWhile_all_append dropWhile_hd)
  moreover have "trim_end (s @ b) = s"
    using assms(2,3,5) by (simp add: trim_end_def dropWhile_all_append dropWhile_hd hd_rev)
  ultimately show ?thesis by (simp add: trim_def)
qed

lemma trim_id: "s \<noteq> [] \<Longrightarrow> \<not> is_whitespace (hd s) \<Longrightarrow> \<not> is_whitespace (last s) \<Longrightarrow> trim s = s"
  using trim_padded [of "[]" "[]" s] by simp

lemma words_loop_word: "\<forall>c \<in> set v. \<not> is_whitespace c \<Longrightarrow>
    words_loop w (v @ s) = words_loop (w @ v) s"
  by (induction v arbitrary: w) auto

lemma words_loop_space: "\<forall>c \<in> set v. is_whitespace c \<Longrightarrow> words_loop [] (v @ s) = words_loop [] s"
  by (induction v) auto

lemma split_whitespace_word:
  assumes "\<forall>c \<in> set w. \<not> is_whitespace c" and "w \<noteq> []" and "is_whitespace c"
  shows "split_whitespace (w @ c # s) = w # split_whitespace s"
  using assms words_loop_word [of w "[]" "c # s"] by (simp add: split_whitespace_def)

lemma split_whitespace_skip:
  "\<forall>c \<in> set v. is_whitespace c \<Longrightarrow> split_whitespace (v @ s) = split_whitespace s"
  by (simp add: split_whitespace_def words_loop_space)

lemma split_whitespace_last:
  assumes "\<forall>c \<in> set w. \<not> is_whitespace c" and "w \<noteq> []"
  shows "split_whitespace w = [w]"
  using assms words_loop_word [of w "[]" "[]"] by (simp add: split_whitespace_def)

lemma lines_loop_line: "10 \<notin> set v \<Longrightarrow> lines_loop l (v @ s) = lines_loop (l @ v) s"
  by (induction v arbitrary: l) auto

lemma str_lines_Cons: "10 \<notin> set l \<Longrightarrow> str_lines (l @ 10 # s) = strip_cr l # str_lines s"
  using lines_loop_line [of l "[]" "10 # s"] by (simp add: str_lines_def)

lemma str_lines_Nil [simp]: "str_lines [] = []"
  by (simp add: str_lines_def)

text \<open>Lines that hold no line feed and do not end in a carriage return are read back from their text.\<close>

lemma str_lines_concat:
  assumes "\<forall>l \<in> set ls. 10 \<notin> set l \<and> (l = [] \<or> last l \<noteq> 13)"
  shows "str_lines (concat (map (\<lambda>l. l @ [10]) ls)) = ls"
  using assms by (induction ls) (auto simp: str_lines_Cons strip_cr_def)

section \<open>Searching and replacing\<close>

fun starts_with :: "rstr \<Rightarrow> rstr \<Rightarrow> bool" where
  "starts_with [] s \<longleftrightarrow> True"
| "starts_with (p # ps) [] \<longleftrightarrow> False"
| "starts_with (p # ps) (c # cs) \<longleftrightarrow> p = c \<and> starts_with ps cs"

fun str_contains :: "rstr \<Rightarrow> rstr \<Rightarrow> bool" where
  "str_contains p [] \<longleftrightarrow> p = []"
| "str_contains p (c # cs) \<longleftrightarrow> starts_with p (c # cs) \<or> str_contains p cs"

definition replace_char :: "rchar \<Rightarrow> rstr \<Rightarrow> rstr \<Rightarrow> rstr" where
  "replace_char c r s = concat (map (\<lambda>x. if x = c then r else [x]) s)"

lemma starts_with_iff: "starts_with p s \<longleftrightarrow> (\<exists>t. s = p @ t)"
  by (induction p s rule: starts_with.induct) auto

lemma starts_with_append [simp]: "starts_with p (p @ s)"
  by (auto simp: starts_with_iff)

lemma str_contains_iff: "str_contains p s \<longleftrightarrow> (\<exists>a b. s = a @ p @ b)"
proof (induction s)
  case (Cons c s)
  show ?case
  proof
    assume "str_contains p (c # s)"
    then consider (here) t where "c # s = p @ t" | (later) a b where "s = a @ p @ b"
      using Cons by (auto simp: starts_with_iff simp del: starts_with.simps)
    then show "\<exists>a b. c # s = a @ p @ b"
    proof cases
      case here
      then have "c # s = [] @ p @ t" by simp
      then show ?thesis by blast
    next
      case later
      then have "c # s = (c # a) @ p @ b" by simp
      then show ?thesis by blast
    qed
  next
    assume "\<exists>a b. c # s = a @ p @ b"
    then obtain a b where s: "c # s = a @ p @ b" by blast
    then show "str_contains p (c # s)"
    proof (cases a)
      case Nil
      with s have "starts_with p (c # s)" by (simp del: starts_with.simps)
      then show ?thesis by simp
    next
      case (Cons x a')
      with s have "s = a' @ p @ b" by simp
      then have "str_contains p s" using Cons.IH by blast
      then show ?thesis by simp
    qed
  qed
qed auto

section \<open>Signed numbers\<close>

text \<open>
  \<open>str::parse\<close> for a signed type of the given width: one sign, then digits.  The library accumulates
  downwards after a minus sign, so that the least value is accepted.
\<close>

definition parse_sint :: "nat \<Rightarrow> rstr \<Rightarrow> int option" where
  "parse_sint bits s =
    (case s of
       [] \<Rightarrow> None
     | c # cs \<Rightarrow>
         if c = 45 then
           if cs = [] then None
           else (case parse_digits 10 bits 0 cs of
                   None \<Rightarrow> None
                 | Some n \<Rightarrow> if n \<le> 2 ^ (bits - 1) then Some (- int n) else None)
         else map_option int (parse_uint 10 (bits - 1) s))"

definition show_int :: "int \<Rightarrow> rstr" where
  "show_int i = (if i < 0 then 45 # show_nat (nat (- i)) else show_nat (nat i))"

lemma parse_uint_show_nat_sign: "c \<in> set (show_nat n) \<Longrightarrow> c \<noteq> 45 \<and> c \<noteq> 43"
  using show_nat_digits [of c n] by auto

lemma parse_sint_show_nat:
  "parse_sint bits (show_nat n) = (if n < 2 ^ (bits - 1) then Some (int n) else None)"
proof -
  obtain c cs where s: "show_nat n = c # cs" by (cases "show_nat n") auto
  then have "c \<noteq> 45" using parse_uint_show_nat_sign [of c n] by simp
  with s have "parse_sint bits (show_nat n) = map_option int (parse_uint 10 (bits - 1) (show_nat n))"
    by (simp add: parse_sint_def)
  then show ?thesis by (simp add: parse_uint_show_nat)
qed

text \<open>Printing a signed number and reading it back gives it, exactly when it is in range.\<close>

lemma parse_sint_show_int:
  assumes "0 < bits"
  shows "parse_sint bits (show_int i) =
    (if - (2 ^ (bits - 1)) \<le> i \<and> i < 2 ^ (bits - 1) then Some i else None)"
proof (cases "i < 0")
  case False
  then obtain n where i: "i = int n" by (metis nonneg_int_cases not_less)
  have "int n < 2 ^ (bits - 1) \<longleftrightarrow> n < 2 ^ (bits - 1)"
    by (metis of_nat_less_iff of_nat_numeral of_nat_power)
  moreover have "- (2 ^ (bits - 1)) \<le> int n"
    by (rule order_trans [of _ 0]) simp_all
  ultimately show ?thesis
    by (simp add: i show_int_def parse_sint_show_nat)
next
  case True
  define n where "n = nat (- i)"
  with True have n: "i = - int n" "0 < n" by simp_all
  have le: "- (2 ^ (bits - 1)) \<le> i \<longleftrightarrow> n \<le> 2 ^ (bits - 1)"
    unfolding n(1) neg_le_iff_le by (metis of_nat_le_iff of_nat_numeral of_nat_power)
  have less: "i < 2 ^ (bits - 1)"
    using True by (rule less_trans) simp
  have fits: "n < 2 ^ bits" if "n \<le> 2 ^ (bits - 1)"
    using that by (rule le_less_trans) (use assms in \<open>simp add: power_strict_increasing\<close>)
  show ?thesis
    using True le less fits
    by (cases "n < 2 ^ bits")
       (auto simp: show_int_def parse_sint_def parse_digits_show_nat parse_digits_show_nat_overflow
          n(1) simp flip: n_def)
qed

lemma parse_sint_bound:
  assumes "parse_sint bits s = Some i"
  shows "- (2 ^ (bits - 1)) \<le> i \<and> i < 2 ^ (bits - 1)"
proof -
  have nn: "- (2 ^ (bits - 1)) \<le> (0 :: int)" "(0 :: int) < 2 ^ (bits - 1)" by simp_all
  have pos: "- (2 ^ (bits - 1)) \<le> int n \<and> int n < 2 ^ (bits - 1)" if "n < 2 ^ (bits - 1)" for n
    using that nn by (metis of_nat_less_iff of_nat_numeral of_nat_power of_nat_0_le_iff order_trans)
  have neg: "- (2 ^ (bits - 1)) \<le> - int n \<and> - int n < 2 ^ (bits - 1)" if "n \<le> 2 ^ (bits - 1)" for n
    using that nn(2)
    by (metis neg_le_iff_le of_nat_le_iff of_nat_numeral of_nat_power neg_le_0_iff_le of_nat_0_le_iff
        order_le_less_trans)
  show ?thesis
    using assms pos neg
    by (auto simp: parse_sint_def dest: parse_uint_bound split: list.splits if_splits option.splits)
qed

section \<open>Long strings\<close>

text \<open>
  A string holds at most \<open>isize::MAX\<close> bytes: \<open>str::repeat\<close> and the growing buffer of \<open>format!\<close> panic
  with a capacity overflow beyond that.  Below it memory is taken to be available.
\<close>

definition fits_string :: "nat \<Rightarrow> bool" where
  "fits_string n \<longleftrightarrow> n < 2 ^ 63"

definition str_repeat :: "rstr \<Rightarrow> u64 \<Rightarrow> rstr res" where
  "str_repeat s n =
    (if fits_string (str_len s * unat n) then Ok (concat (replicate (unat n) s)) else Panic)"

definition format_string :: "rstr \<Rightarrow> rstr res" where
  "format_string s = (if fits_string (str_len s) then Ok s else Panic)"

lemma concat_replicate_single: "concat (replicate n [c]) = replicate n c"
  by (induction n) simp_all

lemma length_show_nat_bound:
  assumes "n < 10 ^ k" and "0 < k"
  shows "length (show_nat n) \<le> k"
  using assms
proof (induction k arbitrary: n)
  case (Suc k)
  show ?case
  proof (cases "n < 10")
    case True
    then show ?thesis by (simp add: show_nat.simps [of n])
  next
    case False
    then have "n div 10 < 10 ^ k" "0 < k"
      using Suc.prems by (auto simp: less_mult_imp_div_less mult.commute intro: Suc_lessI gr0I)
    with Suc.IH [of "n div 10"] False show ?thesis by (simp add: show_nat.simps [of n])
  qed
qed simp

end
