(* ===== verification/Rust_Path.thy ===== *)
theory Rust_Path
  imports Rust_Str
begin

text \<open>
  \<open>std::path\<close> and \<open>std::net\<close> as the program uses them on Linux: joining paths, the extension of a
  path, and IPv4 addresses from text.
\<close>

section \<open>Paths\<close>

text \<open>
  \<open>PathBuf::from(base).join(p)\<close>: an absolute path replaces the base; otherwise a separator is put
  between them unless the base is empty or ends with one.
\<close>

definition path_join :: "rstr \<Rightarrow> rstr \<Rightarrow> rstr" where
  "path_join base p =
    (if p \<noteq> [] \<and> hd p = 47 then p
     else if base \<noteq> [] \<and> last base \<noteq> 47 then base @ 47 # p
     else base @ p)"

text \<open>The last component, when it is a normal one; empty and dot components are skipped.\<close>

definition path_file_name :: "rstr \<Rightarrow> rstr option" where
  "path_file_name p =
    (let comps = filter (\<lambda>c. c \<noteq> [] \<and> c \<noteq> [46]) (split_on 47 p) in
     if comps = [] \<or> last comps = [46, 46] then None else Some (last comps))"

text \<open>
  \<open>Path::extension\<close>: what follows the last dot of the file name, if there is a dot that is not its
  first character.
\<close>

definition path_extension :: "rstr \<Rightarrow> rstr option" where
  "path_extension p =
    (case path_file_name p of
       None \<Rightarrow> None
     | Some f \<Rightarrow>
         if 46 \<notin> set f then None
         else
           let after = rev (takeWhile (\<lambda>c. c \<noteq> 46) (rev f));
               before = take (length f - length after - 1) f in
           if before = [] then None else Some after)"

lemma path_join_relative:
  "\<not> (p \<noteq> [] \<and> hd p = 47) \<Longrightarrow> \<exists>s. path_join base p = base @ s"
  by (auto simp: path_join_def)

lemma path_join_absolute: "path_join base (47 # p) = 47 # p"
  by (simp add: path_join_def)

lemma path_extension_simple:
  assumes "47 \<notin> set b" "47 \<notin> set e" "46 \<notin> set e" "b \<noteq> []"
    and "b @ 46 # e \<noteq> [46, 46]"
  shows "path_extension (d @ 47 # b @ 46 # e) = Some e"
proof -
  let ?f = "b @ 46 # e"
  have f: "?f \<noteq> []" "?f \<noteq> [46]" using assms(4) by (cases b; simp)+
  have "split_on 47 (d @ 47 # ?f) = split_on 47 d @ [?f]"
    using assms(1,2) by (simp add: split_on_append_sep split_on_no_sep)
  then have "path_file_name (d @ 47 # ?f) = Some ?f"
    using f assms(5) by (simp add: path_file_name_def Let_def)
  moreover have "takeWhile (\<lambda>c. c \<noteq> 46) (rev ?f) = rev e"
    using assms(3) by simp
  ultimately show ?thesis
    using assms(4) by (simp add: path_extension_def Let_def)
qed

section \<open>IPv4 addresses\<close>

text \<open>
  \<open>Ipv4Addr::from_str\<close>: four decimal numbers without leading zeros, at most three digits each and
  below 256, separated by dots, and nothing else.
\<close>

definition parse_octet :: "rstr \<Rightarrow> nat option" where
  "parse_octet s =
    (if s = [] \<or> 3 < length s \<or> (hd s = 48 \<and> 1 < length s) then None
     else parse_digits 10 8 0 s)"

definition parse_ipv4 :: "rstr \<Rightarrow> (nat \<times> nat \<times> nat \<times> nat) option" where
  "parse_ipv4 s =
    (case map parse_octet (split_on 46 s) of
       [Some a, Some b, Some c, Some d] \<Rightarrow> Some (a, b, c, d)
     | _ \<Rightarrow> None)"

text \<open>\<open>u32::from(ip)\<close>: the first octet is the most significant.\<close>

definition ipv4_to_u32 :: "nat \<times> nat \<times> nat \<times> nat \<Rightarrow> u32" where
  "ipv4_to_u32 = (\<lambda>(a, b, c, d). word_of_nat (((a * 256 + b) * 256 + c) * 256 + d))"

definition show_ipv4 :: "nat \<times> nat \<times> nat \<times> nat \<Rightarrow> rstr" where
  "show_ipv4 = (\<lambda>(a, b, c, d). join_with 46 [show_nat a, show_nat b, show_nat c, show_nat d])"

lemma parse_octet_show:
  assumes "n < 256"
  shows "parse_octet (show_nat n) = Some n"
proof -
  have "parse_digits 10 8 0 (show_nat n) = Some n"
    using assms by (simp add: parse_digits_show_nat)
  moreover have "length (show_nat n) \<le> 3 \<and> (hd (show_nat n) = 48 \<longrightarrow> length (show_nat n) \<le> 1)"
  proof -
    consider "n < 10" | "10 \<le> n" "n < 100" | "100 \<le> n" by linarith
    then show ?thesis
    proof cases
      case 1
      then show ?thesis by (cases "n = 0") (simp_all add: show_nat.simps [of n] show_nat.simps [of 0])
    next
      case 2
      then have "n div 10 < 10" "0 < n div 10" by linarith+
      with 2 show ?thesis
        by (simp add: show_nat.simps [of n] show_nat.simps [of "n div 10"])
    next
      case 3
      then have "n div 10 div 10 < 10" "0 < n div 10 div 10" "10 \<le> n div 10"
        using assms by linarith+
      with 3 show ?thesis
        by (simp add: show_nat.simps [of n] show_nat.simps [of "n div 10"]
            show_nat.simps [of "n div 10 div 10"] del: div_mult2_eq)
    qed
  qed
  ultimately show ?thesis
    by (auto simp: parse_octet_def)
qed

lemma parse_show_ipv4:
  assumes "a < 256" "b < 256" "c < 256" "d < 256"
  shows "parse_ipv4 (show_ipv4 (a, b, c, d)) = Some (a, b, c, d)"
proof -
  have "46 \<notin> set (show_nat n)" for n
    using show_nat_digits [of 46 n] by auto
  then have "split_on 46 (show_ipv4 (a, b, c, d)) = [show_nat a, show_nat b, show_nat c, show_nat d]"
    unfolding show_ipv4_def prod.case by (intro split_on_join_with) auto
  then show ?thesis
    using assms by (simp add: parse_ipv4_def parse_octet_show)
qed

lemma parse_ipv4_bound:
  assumes "parse_ipv4 s = Some (a, b, c, d)"
  shows "a < 256 \<and> b < 256 \<and> c < 256 \<and> d < 256"
proof -
  have octet: "n < 256" if "parse_octet t = Some n" for t n
    using that parse_digits_bound [of 10 8 0 t n] by (simp add: parse_octet_def split: if_splits)
  have "map parse_octet (split_on 46 s) = [Some a, Some b, Some c, Some d]"
    using assms by (simp add: parse_ipv4_def split: list.splits option.splits)
  then show ?thesis
    using octet by auto
qed

section \<open>Byte order\<close>

text \<open>
  \<open>to_be\<close> on a little-endian machine swaps the bytes; \<open>le_bytes\<close> is how a value lies in memory there.
\<close>

definition u16_to_be :: "u16 \<Rightarrow> u16" where
  "u16_to_be p = word_of_nat (unat p mod 256 * 256 + unat p div 256)"

definition u32_to_be :: "u32 \<Rightarrow> u32" where
  "u32_to_be p =
    word_of_nat (((unat p mod 256 * 256 + unat p div 256 mod 256) * 256 + unat p div 65536 mod 256) * 256
      + unat p div 16777216)"

definition le_bytes16 :: "u16 \<Rightarrow> nat list" where
  "le_bytes16 p = [unat p mod 256, unat p div 256]"

definition le_bytes32 :: "u32 \<Rightarrow> nat list" where
  "le_bytes32 p = [unat p mod 256, unat p div 256 mod 256, unat p div 65536 mod 256, unat p div 16777216]"

lemma unat_u16_of: "k < 65536 \<Longrightarrow> unat (word_of_nat k :: u16) = k"
  by (simp add: unat_of_nat take_bit_eq_mod)

lemma unat_u32_of: "k < 4294967296 \<Longrightarrow> unat (word_of_nat k :: u32) = k"
  by (simp add: unat_of_nat take_bit_eq_mod)

lemma le_bytes16_to_be: "le_bytes16 (u16_to_be p) = [unat p div 256, unat p mod 256]"
proof -
  have p: "unat p < 65536" by (rule order_less_le_trans [OF unsigned_less]) simp
  then have d: "unat p div 256 < 256" by linarith
  let ?m = "unat p mod 256 * 256 + unat p div 256"
  have "unat p mod 256 < 256" by simp
  then have "?m < 65536" using d by linarith
  then have u: "unat (u16_to_be p) = ?m" unfolding u16_to_be_def by (rule unat_u16_of)
  show ?thesis
    unfolding le_bytes16_def u using d by simp
qed

text \<open>Putting one more byte below a number of so many bytes.\<close>

lemma snoc_byte:
  assumes "(d::nat) < 256"
  shows "(n * 256 + d) mod 256 = d" "(n * 256 + d) div 256 = n"
    "n < k \<Longrightarrow> n * 256 + d < k * 256"
  using assms by auto

lemma bytes32_parts:
  assumes "a < 256" "b < 256" "c < 256" "(d::nat) < 256"
  defines "n \<equiv> ((a * 256 + b) * 256 + c) * 256 + d"
  shows "n < 4294967296" "n mod 256 = d" "n div 256 mod 256 = c" "n div 65536 mod 256 = b"
    "n div 16777216 = a"
proof -
  have split: "k div 65536 = k div 256 div 256" "k div 16777216 = k div 256 div 256 div 256" for k :: nat
    by (simp_all add: div_mult2_eq [symmetric])
  show "n mod 256 = d" "n div 256 mod 256 = c" "n div 65536 mod 256 = b" "n div 16777216 = a"
    unfolding split n_def by (simp_all only: snoc_byte assms)
  have "n < 256 * 256 * 256 * 256"
    unfolding n_def by (intro snoc_byte assms)
  then show "n < 4294967296" by simp
qed

lemma le_bytes32_ipv4:
  assumes "a < 256" "b < 256" "c < 256" "d < 256"
  shows "le_bytes32 (u32_to_be (ipv4_to_u32 (a, b, c, d))) = [a, b, c, d]"
proof -
  note p = bytes32_parts [OF assms] and q = bytes32_parts [OF assms(4,3,2,1)]
  have n: "unat (ipv4_to_u32 (a, b, c, d)) = ((a * 256 + b) * 256 + c) * 256 + d"
    unfolding ipv4_to_u32_def prod.case by (rule unat_u32_of [OF p(1)])
  have m: "unat (u32_to_be (ipv4_to_u32 (a, b, c, d))) = ((d * 256 + c) * 256 + b) * 256 + a"
    unfolding u32_to_be_def n p(2-) by (rule unat_u32_of [OF q(1)])
  show ?thesis unfolding le_bytes32_def m q(2-) ..
qed

end
