(* ===== verification/Hash_Map.thy ===== *)
theory Hash_Map
  imports Prelude "HOL-Library.AList"
begin

text \<open>
  \<open>std::collections::HashMap\<close> as the program uses it: insert, remove, get and iteration.  The
  interface is the locale \<open>hash_map\<close>; its client lemmas say what a loop of inserts leaves behind.
  The model is an association list with distinct keys, and the interpretation \<open>hm\<close> discharges the
  laws for it.  The order of iteration is unspecified in Rust and a parameter here.
\<close>

section \<open>The interface\<close>

locale hash_map =
  fixes empty :: "'m"
    and insert :: "'k \<Rightarrow> 'v \<Rightarrow> 'm \<Rightarrow> 'm"
    and remove :: "'k \<Rightarrow> 'm \<Rightarrow> 'm"
    and get :: "'m \<Rightarrow> 'k \<Rightarrow> 'v option"
    and entries :: "'m \<Rightarrow> ('k \<times> 'v) list"
    and wf :: "'m \<Rightarrow> bool"
  assumes get_empty: "get empty k = None"
    and get_insert: "get (insert k v m) k' = (if k' = k then Some v else get m k')"
    and get_remove: "wf m \<Longrightarrow> get (remove k m) k' = (if k' = k then None else get m k')"
    and wf_empty: "wf empty"
    and wf_insert: "wf m \<Longrightarrow> wf (insert k v m)"
    and wf_remove: "wf m \<Longrightarrow> wf (remove k m)"
    and entries_distinct: "wf m \<Longrightarrow> distinct (map fst (entries m))"
    and entries_get: "wf m \<Longrightarrow> (k, v) \<in> set (entries m) \<longleftrightarrow> get m k = Some v"
begin

text \<open>A loop of inserts: for every key the last value inserted wins.\<close>

lemma get_fold_insert:
  "get (fold (\<lambda>(k, v). insert k v) kvs m) k =
    (case map_of (rev kvs) k of None \<Rightarrow> get m k | Some v \<Rightarrow> Some v)"
  by (induction kvs arbitrary: m)
    (auto simp: get_insert map_add_def split: option.splits)

lemma wf_fold_insert: "wf m \<Longrightarrow> wf (fold (\<lambda>(k, v). insert k v) kvs m)"
  by (induction kvs arbitrary: m) (auto intro: wf_insert)

lemma get_fold_insert_empty:
  "get (fold (\<lambda>(k, v). insert k v) kvs empty) k = map_of (rev kvs) k"
  by (simp add: get_fold_insert get_empty split: option.splits)

text \<open>Removing every key of the map, in any order, empties it.\<close>

lemma wf_fold_remove: "wf m \<Longrightarrow> wf (fold remove ks m)"
  by (induction ks arbitrary: m) (auto intro: wf_remove)

lemma get_fold_remove:
  "wf m \<Longrightarrow> get (fold remove ks m) k = (if k \<in> set ks then None else get m k)"
  by (induction ks arbitrary: m) (auto simp: get_remove wf_remove)

end

section \<open>The model\<close>

type_synonym ('k, 'v) hmap = "('k \<times> 'v) list"

definition hm_insert :: "'k \<Rightarrow> 'v \<Rightarrow> ('k, 'v) hmap \<Rightarrow> ('k, 'v) hmap" where
  "hm_insert k v m = AList.update k v m"

definition hm_remove :: "'k \<Rightarrow> ('k, 'v) hmap \<Rightarrow> ('k, 'v) hmap" where
  "hm_remove k m = AList.delete k m"

definition hm_get :: "('k, 'v) hmap \<Rightarrow> 'k \<Rightarrow> 'v option" where
  "hm_get m k = map_of m k"

definition hm_wf :: "('k, 'v) hmap \<Rightarrow> bool" where
  "hm_wf m \<longleftrightarrow> distinct (map fst m)"

text \<open>An order of iteration visits every entry exactly once.\<close>

definition hash_order :: "(('k \<times> 'v) list \<Rightarrow> ('k \<times> 'v) list) \<Rightarrow> bool" where
  "hash_order ord \<longleftrightarrow> (\<forall>m. mset (ord m) = mset m)"

interpretation hm: hash_map "[]" hm_insert hm_remove hm_get "\<lambda>m. m" hm_wf
proof
  fix k k' :: 'a and v :: 'b and m
  show "hm_get [] k = (None :: 'b option)"
    by (simp add: hm_get_def)
  show "hm_get (hm_insert k v m) k' = (if k' = k then Some v else hm_get m k')"
    by (simp add: hm_get_def hm_insert_def update_conv')
  show "hm_get (hm_remove k m) k' = (if k' = k then None else hm_get m k')" if "hm_wf m"
    by (simp add: hm_get_def hm_remove_def delete_conv')
  show "hm_wf ([] :: ('a \<times> 'b) list)"
    by (simp add: hm_wf_def)
  show "hm_wf (hm_insert k v m)" if "hm_wf m"
    using that by (simp add: hm_wf_def hm_insert_def distinct_update)
  show "hm_wf (hm_remove k m)" if "hm_wf m"
    using that by (simp add: hm_wf_def hm_remove_def distinct_delete)
  show "distinct (map fst m)" if "hm_wf m"
    using that by (simp add: hm_wf_def)
  show "(k, v) \<in> set m \<longleftrightarrow> hm_get m k = Some v" if "hm_wf m"
    using that by (simp add: hm_wf_def hm_get_def)
qed

lemmas [wf_intros] = hm.wf_empty hm.wf_insert hm.wf_remove hm.wf_fold_insert

lemma hm_keys_iff: "k \<in> set (map fst m) \<longleftrightarrow> hm_get m k \<noteq> None"
  by (simp add: hm_get_def map_of_eq_None_iff)

lemma list_all_hm_insert:
  "P (k, v) \<Longrightarrow> list_all P m \<Longrightarrow> list_all P (hm_insert k v m)"
  by (induction m) (auto simp: hm_insert_def)

text \<open>Iteration in an unspecified order keeps the entries and their distinctness.\<close>

lemma hash_order_set: "hash_order ord \<Longrightarrow> set (ord m) = set m"
  by (metis hash_order_def set_mset_mset)

lemma hash_order_wf:
  assumes "hash_order ord" and "hm_wf m"
  shows "hm_wf (ord m)"
proof -
  have "mset (map fst (ord m)) = mset (map fst m)"
    using assms(1) by (simp add: hash_order_def)
  then show ?thesis
    using assms(2) unfolding hm_wf_def by (metis mset_eq_imp_distinct_iff)
qed

lemma hash_order_get:
  assumes "hash_order ord" and "hm_wf m"
  shows "hm_get (ord m) k = hm_get m k"
proof -
  have "(k, v) \<in> set (ord m) \<longleftrightarrow> (k, v) \<in> set m" for v
    by (simp add: hash_order_set [OF assms(1)])
  then have "hm_get (ord m) k = Some v \<longleftrightarrow> hm_get m k = Some v" for v
    using hm.entries_get [OF assms(2)] hm.entries_get [OF hash_order_wf [OF assms]] by blast
  then show ?thesis
    by (metis not_Some_eq)
qed

end
