(* ===== verification/Host.thy ===== *)
theory Host
  imports Rust_Fmt
begin

text \<open>
  The machine around the server, as the reports and set-up code see it: text files under \<open>/proc\<close> and
  \<open>/sys\<close>, directories, resource limits, and the log.  The file system and the kernel are a parameter,
  a record of operations on a world; the log is part of the state, one entry per logging macro
  (the message text is the one the code formats).
\<close>

section \<open>State and parameters\<close>

datatype log_line = Info rstr | Warn rstr | Debug rstr

record 'w host_state =
  hs_world :: 'w
  hs_log :: "log_line list"

text \<open>
  \<open>read_to_string\<close> gives nothing when the read fails or the bytes are not UTF-8; \<open>fs_write\<close> gives the
  text of the error when it fails; \<open>read_dir\<close> gives the entries in the order the iterator yields them,
  nothing for an entry that cannot be read, and for a name that is not UTF-8 an entry without a name.
\<close>

record 'w host =
  read_to_string :: "rstr \<Rightarrow> 'w \<Rightarrow> rstr option"
  fs_write :: "rstr \<Rightarrow> rstr \<Rightarrow> 'w \<Rightarrow> rstr option \<times> 'w"
  read_dir :: "rstr \<Rightarrow> 'w \<Rightarrow> rstr option option list option"
  getrlimit_nofile :: "'w \<Rightarrow> (u64 \<times> u64) option"

definition say :: "log_line \<Rightarrow> 'w host_state \<Rightarrow> 'w host_state" where
  "say l s = s\<lparr>hs_log := hs_log s @ [l]\<rparr>"

definition says :: "log_line list \<Rightarrow> 'w host_state \<Rightarrow> 'w host_state" where
  "says ls s = s\<lparr>hs_log := hs_log s @ ls\<rparr>"

named_theorems report_simps \<open>what the functions that only report do to world and log\<close>

lemma say_sel [simp]:
  "hs_world (say l s) = hs_world s" "hs_log (say l s) = hs_log s @ [l]"
  "hs_world (says ls s) = hs_world s" "hs_log (says ls s) = hs_log s @ ls"
  by (simp_all add: say_def says_def)

lemma say_says: "say l s = says [l] s"
  by (simp add: say_def says_def)

lemma says_says [simp]: "says ls (says ks s) = says (ks @ ls) s" "says [] s = s"
  by (simp_all add: says_def)

text \<open>A fold of reports is one report of everything the steps say, when what they say depends on the
  world only.\<close>

lemma fold_says:
  assumes "\<And>x s. f x s = says (g x (hs_world s)) s"
  shows "fold f xs s = says (concat (map (\<lambda>x. g x (hs_world s)) xs)) s"
  by (induction xs arbitrary: s) (simp_all add: assms)

section \<open>Warnings\<close>

fun is_warn :: "log_line \<Rightarrow> bool" where
  "is_warn (Warn t) = True"
| "is_warn _ = False"

definition warnings :: "'w host_state \<Rightarrow> log_line list" where
  "warnings s = filter is_warn (hs_log s)"

lemma warnings_says [simp]: "warnings (says ls s) = warnings s @ filter is_warn ls"
  by (simp add: warnings_def)

section \<open>A file system of text files\<close>

text \<open>
  What a kernel promises of its \<open>sysctl\<close> files, for given settings, pairs of a file and a decimal
  number in the form in which the kernel prints it: after a write of that number to that file that
  succeeded, the file reads as the number (with a line feed after it), and the files of the other
  settings have not changed.  Nothing is said of any other text or file, nor that a write succeeds.
\<close>

definition sysctl_law :: "'w host \<Rightarrow> (rstr \<times> rstr) set \<Rightarrow> bool" where
  "sysctl_law h settings \<longleftrightarrow>
    (\<forall>(p, v) \<in> settings. \<forall>w w'. fs_write h p v w = (None, w') \<longrightarrow>
       read_to_string h p w' = Some (v @ [10]) \<and>
       (\<forall>q \<in> fst ` settings. q \<noteq> p \<longrightarrow> read_to_string h q w' = read_to_string h q w))"

text \<open>An instance: the world is the contents of the files, every write works.\<close>

definition map_host :: "(rstr \<Rightarrow> rstr option) host" where
  "map_host =
    \<lparr>read_to_string = (\<lambda>p w. w p), fs_write = (\<lambda>p v w. (None, w(p \<mapsto> v @ [10]))),
     read_dir = (\<lambda>_ _. None), getrlimit_nofile = (\<lambda>_. Some (1024, 4096))\<rparr>"

lemma map_host_law: "sysctl_law map_host settings"
  by (auto simp: sysctl_law_def map_host_def)

end
