(* ===== verification/Http_Parser.thy ===== *)
theory Http_Parser
  imports Rust_Str Hash_Map
begin

text \<open>
  \<open>src/http/parser.rs\<close>: the parsed request, its construction from the third-party parser
  \<open>httparse\<close> (a parameter), and the accessors: headers, keep-alive, content length, query
  parameters with the inline URL decoder, and the path without its query.
\<close>

section \<open>Requests\<close>

record http_request =
  req_method :: rstr
  req_path :: rstr
  req_version :: byte
  req_headers :: "(rstr, rstr) hmap"
  req_body :: "byte list"

text \<open>
  What \<open>httparse::Request::parse\<close> leaves behind: the status with the length of the head, the
  request line's fields and the headers it filled in.  The parser itself takes the size of the
  header array and the buffer; \<open>None\<close> is its error.
\<close>

datatype httparse_status = Complete nat | Partial

record httparse_req =
  hp_method :: "rstr option"
  hp_path :: "rstr option"
  hp_version :: "byte option"
  hp_headers :: "(rstr \<times> byte list) list"

type_synonym httparse = "nat \<Rightarrow> byte list \<Rightarrow> (httparse_status \<times> httparse_req) option"

fun is_partial :: "httparse_status \<Rightarrow> bool" where
  "is_partial Partial = True"
| "is_partial (Complete n) = False"

fun status_unwrap :: "httparse_status \<Rightarrow> nat res" where
  "status_unwrap (Complete n) = Ok n"
| "status_unwrap Partial = Panic"

fun insert_headers ::
    "(rstr \<Rightarrow> rstr) \<Rightarrow> (rstr \<times> byte list) list \<Rightarrow> (rstr, rstr) hmap \<Rightarrow> (rstr, rstr) hmap" where
  "insert_headers uni [] m = m"
| "insert_headers uni ((name, value) # hs) m =
     insert_headers uni hs
       (if name \<noteq> [] then hm_insert (to_lowercase uni name) (from_utf8_lossy value) m else m)"

definition body_of :: "byte list \<Rightarrow> nat \<Rightarrow> byte list" where
  "body_of buf off = (if off < length buf then drop off buf else [])"

definition HttpRequest_parse :: "httparse \<Rightarrow> (rstr \<Rightarrow> rstr) \<Rightarrow> byte list \<Rightarrow> http_request res" where
  "HttpRequest_parse httparse uni buf =
    (case httparse 64 buf of
       None \<Rightarrow> Err ParseFailed
     | Some (status, req) \<Rightarrow>
         if is_partial status then Err IncompleteRequest
         else
           res_bind (ok_or MissingMethod (hp_method req)) (\<lambda>meth.
           res_bind (ok_or MissingPath (hp_path req)) (\<lambda>path.
           res_bind (ok_or MissingVersion (hp_version req)) (\<lambda>version.
           let header_map = insert_headers uni (hp_headers req) [] in
           res_bind (status_unwrap status) (\<lambda>body_offset.
             Ok \<lparr>req_method = meth, req_path = path, req_version = version,
                  req_headers = header_map, req_body = body_of buf body_offset\<rparr>)))))"

section \<open>Accessors\<close>

definition get_header :: "(rstr \<Rightarrow> rstr) \<Rightarrow> http_request \<Rightarrow> rstr \<Rightarrow> rstr option" where
  "get_header uni r name = hm_get (req_headers r) (to_lowercase uni name)"

definition is_keep_alive :: "(rstr \<Rightarrow> rstr) \<Rightarrow> http_request \<Rightarrow> bool" where
  "is_keep_alive uni r =
    (case get_header uni r (lit ''connection'') of
       Some connection \<Rightarrow> to_lowercase uni connection = lit ''keep-alive''
     | None \<Rightarrow> req_version r \<ge> 1)"

definition content_length :: "(rstr \<Rightarrow> rstr) \<Rightarrow> http_request \<Rightarrow> nat option" where
  "content_length uni r =
    Option.bind (get_header uni r (lit ''content-length'')) (\<lambda>v. parse_uint 10 64 v)"

definition has_body :: "(rstr \<Rightarrow> rstr) \<Rightarrow> http_request \<Rightarrow> bool" where
  "has_body uni r \<longleftrightarrow>
    (case content_length uni r of None \<Rightarrow> 0 | Some n \<Rightarrow> n) > 0 \<or> req_body r \<noteq> []"

definition clean_path :: "http_request \<Rightarrow> rstr res" where
  "clean_path r =
    (case str_find 63 (req_path r) of
       Some query_start \<Rightarrow> slice_to (req_path r) query_start
     | None \<Rightarrow> Ok (req_path r))"

section \<open>URL decoding and query parameters\<close>

datatype cow = Borrowed rstr | Owned rstr

fun cow_str :: "cow \<Rightarrow> rstr" where
  "cow_str (Borrowed s) = s"
| "cow_str (Owned s) = s"

text \<open>The loop over \<open>chars\<close>: \<open>37\<close> is \<open>%\<close>, \<open>43\<close> is \<open>+\<close>; \<open>byte as char\<close> keeps the number.\<close>

fun decode_loop :: "rstr \<Rightarrow> rstr \<Rightarrow> rstr res" where
  "decode_loop result [] = Ok result"
| "decode_loop result (ch # chars) =
    (if ch = 37 then
       (case chars of
          h1 # h2 # rest \<Rightarrow>
            (case parse_uint 16 8 [h1, h2] of
               Some b \<Rightarrow> decode_loop (result @ [b]) rest
             | None \<Rightarrow> Err FmtError)
        | _ \<Rightarrow> Err FmtError)
     else if ch = 43 then decode_loop (result @ [32]) chars
     else decode_loop (result @ [ch]) chars)"

definition url_decode :: "rstr \<Rightarrow> cow res" where
  "url_decode s =
    res_bind (decode_loop [] s) (\<lambda>result. Ok (if result = s then Borrowed s else Owned result))"

text \<open>\<open>decode(..).unwrap_or_default().to_string()\<close>; the default is the empty string.\<close>

definition decode_or_default :: "rstr \<Rightarrow> rstr" where
  "decode_or_default s = (case url_decode s of Ok c \<Rightarrow> cow_str c | _ \<Rightarrow> [])"

fun query_loop :: "rstr list \<Rightarrow> (rstr, rstr) hmap \<Rightarrow> (rstr, rstr) hmap res" where
  "query_loop [] params = Ok params"
| "query_loop (pair # pairs) params =
    (case str_find 61 pair of
       Some eq_pos \<Rightarrow>
         res_bind (slice_to pair eq_pos) (\<lambda>key.
         res_bind (slice_from pair (eq_pos + 1)) (\<lambda>value.
           query_loop pairs
             (hm_insert (decode_or_default key) (decode_or_default value) params)))
     | None \<Rightarrow> query_loop pairs params)"

definition query_params :: "http_request \<Rightarrow> (rstr, rstr) hmap res" where
  "query_params r =
    (case str_find 63 (req_path r) of
       Some query_start \<Rightarrow>
         res_bind (slice_from (req_path r) (query_start + 1)) (\<lambda>query.
           query_loop (split_on 38 query) [])
     | None \<Rightarrow> Ok [])"

section \<open>Headers\<close>

text \<open>The header pairs that reach the map: unnamed slots skipped, names folded, values decoded.\<close>

definition header_pairs :: "(rstr \<Rightarrow> rstr) \<Rightarrow> (rstr \<times> byte list) list \<Rightarrow> (rstr \<times> rstr) list" where
  "header_pairs uni hs =
    map (\<lambda>(n, v). (to_lowercase uni n, from_utf8_lossy v)) (filter (\<lambda>(n, v). n \<noteq> []) hs)"

lemma insert_headers_fold:
  "insert_headers uni hs m = fold (\<lambda>(k, v). hm_insert k v) (header_pairs uni hs) m"
  by (induction uni hs m rule: insert_headers.induct) (auto simp: header_pairs_def)

lemma insert_headers_get:
  "hm_get (insert_headers uni hs []) k = map_of (rev (header_pairs uni hs)) k"
  by (simp add: insert_headers_fold hm.get_fold_insert_empty)

lemma insert_headers_wf [wf_intros]: "hm_wf m \<Longrightarrow> hm_wf (insert_headers uni hs m)"
  by (simp add: insert_headers_fold wf_intros)

lemma body_of_drop: "body_of buf n = drop n buf"
  by (simp add: body_of_def)

lemma HttpRequest_parse_Ok_iff:
  "HttpRequest_parse hp uni buf = Ok r \<longleftrightarrow>
    (\<exists>n q. hp 64 buf = Some (Complete n, q) \<and>
       hp_method q = Some (req_method r) \<and> hp_path q = Some (req_path r) \<and>
       hp_version q = Some (req_version r) \<and>
       req_headers r = insert_headers uni (hp_headers q) [] \<and> req_body r = drop n buf)"
  (is "?l \<longleftrightarrow> ?r")
proof
  assume ?l
  then show ?r
    by (auto simp: HttpRequest_parse_def Let_def body_of_drop
        split: option.splits httparse_status.splits if_splits elim!: is_partial.elims)
next
  assume ?r
  then show ?l
    by (cases r) (auto simp: HttpRequest_parse_def Let_def body_of_drop)
qed

lemma HttpRequest_parse_not_Panic: "HttpRequest_parse hp uni buf \<noteq> Panic"
proof -
  have "status_unwrap st \<noteq> Panic" if "\<not> is_partial st" for st
    using that by (cases st) auto
  then show ?thesis
    by (auto simp: HttpRequest_parse_def Let_def split: option.splits prod.splits)
qed

text \<open>A request parses exactly when httparse reports a complete head with all three fields of the
  request line; the request then holds those fields, and its body is the buffer after the head.
  A partial head and each missing field give their own error, and no input panics.\<close>

theorem parse_outcomes:
  "HttpRequest_parse hp uni buf \<noteq> Panic \<and>
   (HttpRequest_parse hp uni buf = Err ParseFailed \<longleftrightarrow> hp 64 buf = None) \<and>
   (HttpRequest_parse hp uni buf = Err IncompleteRequest \<longleftrightarrow>
      (\<exists>q. hp 64 buf = Some (Partial, q))) \<and>
   ((\<exists>r. HttpRequest_parse hp uni buf = Ok r) \<longleftrightarrow>
      (\<exists>n q m p v. hp 64 buf = Some (Complete n, q) \<and> hp_method q = Some m \<and>
         hp_path q = Some p \<and> hp_version q = Some v))"
proof (intro conjI)
  show "HttpRequest_parse hp uni buf \<noteq> Panic"
    by (rule HttpRequest_parse_not_Panic)
  show "HttpRequest_parse hp uni buf = Err ParseFailed \<longleftrightarrow> hp 64 buf = None"
    by (auto simp: HttpRequest_parse_def Let_def elim!: is_partial.elims
        split: option.splits prod.splits if_splits)
      (metis err.distinct is_partial.elims(3) res.distinct(1) res.inject(2) status_unwrap.simps(1))?
  show "HttpRequest_parse hp uni buf = Err IncompleteRequest \<longleftrightarrow>
      (\<exists>q. hp 64 buf = Some (Partial, q))"
    by (auto simp: HttpRequest_parse_def Let_def elim!: is_partial.elims
        split: option.splits prod.splits if_splits)
  show "(\<exists>r. HttpRequest_parse hp uni buf = Ok r) \<longleftrightarrow>
      (\<exists>n q m p v. hp 64 buf = Some (Complete n, q) \<and> hp_method q = Some m \<and>
         hp_path q = Some p \<and> hp_version q = Some v)"
    by (auto simp: HttpRequest_parse_Ok_iff)
      (metis http_request.select_convs)
qed

text \<open>C29: header lookup on a parsed request ignores the case of the name asked for and of the names
  received; of several headers with one name the last wins, and its value is the lossy UTF-8 text.\<close>

theorem parsed_header_last_wins:
  assumes "HttpRequest_parse hp uni buf = Ok r" and "hp 64 buf = Some (st, q)"
  shows "get_header uni r nm = map_of (rev (header_pairs uni (hp_headers q))) (to_lowercase uni nm)"
  using assms by (auto simp: HttpRequest_parse_Ok_iff get_header_def insert_headers_get)

theorem parsed_header_last_wins_witness:
  "get_header (\<lambda>s. s) \<lparr>req_method = lit ''GET'', req_path = lit ''/'', req_version = 1,
      req_headers = [(lit ''host'', lit ''b'')], req_body = []\<rparr> (lit ''HOST'') =
    map_of (rev (header_pairs (\<lambda>s. s) [(lit ''Host'', [97]), (lit ''hOst'', [98])]))
      (to_lowercase (\<lambda>s. s) (lit ''HOST''))"
proof -
  define q where "q = \<lparr>hp_method = Some (lit ''GET''), hp_path = Some (lit ''/''), hp_version = Some 1,
    hp_headers = [(lit ''Host'', [97 :: byte]), (lit ''hOst'', [98])]\<rparr>"
  have lossy: "from_utf8_lossy [98] = [98]" "from_utf8_lossy [97] = [97]"
    by (simp_all add: from_utf8_lossy.simps utf8_step_def)
  have "HttpRequest_parse (\<lambda>n b. Some (Complete 0, q)) (\<lambda>s. s) [] =
      Ok \<lparr>req_method = lit ''GET'', req_path = lit ''/'', req_version = 1,
        req_headers = [(lit ''host'', lit ''b'')], req_body = []\<rparr>"
    by (simp add: HttpRequest_parse_Ok_iff q_def lossy hm_insert_def to_lowercase_def
        is_ascii_str_def lit_def ascii_lower_def)
  from parsed_header_last_wins [OF this, of "Complete 0" q "lit ''HOST''"] show ?thesis
    by (simp add: q_def)
qed

section \<open>Paths and queries\<close>

text \<open>For every request the clean path is the part of the path before its first question mark,
  and computing it never panics.\<close>

lemma clean_path_eq [simp]:
  "clean_path r = Ok (takeWhile (\<lambda>c. c \<noteq> 63) (req_path r))"
proof (cases "str_find 63 (req_path r)")
  case None
  then show ?thesis
    by (simp add: clean_path_def str_find_None_iff takeWhile_eq_all_conv)
next
  case (Some i)
  then obtain b where "req_path r = takeWhile (\<lambda>c. c \<noteq> 63) (req_path r) @ 63 # b"
    and "i = str_len (takeWhile (\<lambda>c. c \<noteq> 63) (req_path r))"
    using str_find_Some by blast
  with Some show ?thesis
    using slice_to_append [of "takeWhile (\<lambda>c. c \<noteq> 63) (req_path r)" "63 # b"]
    by (simp add: clean_path_def)
qed

text \<open>The key/value pairs of a query: one per piece that has an equals sign, split at the first.\<close>

definition query_pair :: "rstr \<Rightarrow> rstr \<times> rstr" where
  "query_pair p =
    (decode_or_default (takeWhile (\<lambda>c. c \<noteq> 61) p),
     decode_or_default (tl (dropWhile (\<lambda>c. c \<noteq> 61) p)))"

definition query_pairs :: "rstr \<Rightarrow> (rstr \<times> rstr) list" where
  "query_pairs path =
    (if 63 \<in> set path then
       map query_pair (filter (\<lambda>p. 61 \<in> set p) (split_on 38 (tl (dropWhile (\<lambda>c. c \<noteq> 63) path))))
     else [])"

lemma query_loop_fold:
  "query_loop pairs m =
    Ok (fold (\<lambda>(k, v). hm_insert k v) (map query_pair (filter (\<lambda>p. 61 \<in> set p) pairs)) m)"
proof (induction pairs arbitrary: m)
  case Nil
  then show ?case by simp
next
  case (Cons p ps)
  show ?case
  proof (cases "str_find 61 p")
    case None
    then show ?thesis using Cons.IH by (simp add: str_find_None_iff)
  next
    case (Some i)
    define a where "a = takeWhile (\<lambda>c. c \<noteq> 61) p"
    obtain b where p: "p = a @ 61 # b" and i: "i = str_len a"
      using str_find_Some [OF Some] unfolding a_def by blast
    have a: "61 \<notin> set a" by (simp add: a_def)
    have "slice_to p i = Ok a" and "slice_from p (i + 1) = Ok b"
      by (simp_all add: p i slice_after_found del: One_nat_def)
    moreover have "query_pair p = (decode_or_default a, decode_or_default b)"
      using a by (simp add: query_pair_def p)
    ultimately show ?thesis
      using Some Cons.IH by (simp add: p)
  qed
qed

lemma query_params_fold:
  "query_params r = Ok (fold (\<lambda>(k, v). hm_insert k v) (query_pairs (req_path r)) [])"
proof (cases "str_find 63 (req_path r)")
  case None
  then show ?thesis by (simp add: query_params_def query_pairs_def str_find_None_iff)
next
  case (Some i)
  define a where "a = takeWhile (\<lambda>c. c \<noteq> 63) (req_path r)"
  obtain b where p: "req_path r = a @ 63 # b" and i: "i = str_len a"
    using str_find_Some [OF Some] unfolding a_def by blast
  have a: "63 \<notin> set a" by (simp add: a_def)
  have "slice_from (req_path r) (i + 1) = Ok b"
    by (simp add: p i slice_after_found del: One_nat_def)
  with Some show ?thesis
    using a by (simp add: query_params_def query_pairs_def query_loop_fold p)
qed

text \<open>Query parsing never panics; the map it returns binds a key exactly to the decoded value of
  the last piece of the query whose decoded key it is, and pieces without an equals sign bind
  nothing.\<close>

theorem query_params_last_wins:
  "\<exists>m. query_params r = Ok m \<and> hm_wf m \<and>
     (\<forall>k. hm_get m k = map_of (rev (query_pairs (req_path r))) k)"
  by (simp add: query_params_fold hm.get_fold_insert_empty wf_intros)

section \<open>URL decoding\<close>

lemma decode_loop_acc:
  "decode_loop (a @ acc) s = res_bind (decode_loop acc s) (\<lambda>t. Ok (a @ t))"
proof (induction acc s rule: decode_loop.induct)
  case (2 acc ch chars)
  then show ?case by (auto split: list.splits option.splits)
qed simp

lemma decode_loop_append_percent:
  "decode_loop acc (percent_encode bs @ s) = decode_loop (acc @ map unat bs) s"
  by (induction bs arbitrary: acc) (simp_all add: parse_hex_byte)

lemma decode_loop_not_Panic: "decode_loop acc s \<noteq> Panic"
  by (induction acc s rule: decode_loop.induct) (auto split: list.splits option.splits)

lemma decode_loop_plain:
  "37 \<notin> set s \<Longrightarrow> 43 \<notin> set s \<Longrightarrow> decode_loop acc s = Ok (acc @ s)"
  by (induction s arbitrary: acc) auto

lemma url_decode_Ok_iff: "(\<exists>c. url_decode s = Ok c \<and> cow_str c = t) \<longleftrightarrow> decode_loop [] s = Ok t"
proof
  assume "decode_loop [] s = Ok t"
  then show "\<exists>c. url_decode s = Ok c \<and> cow_str c = t"
    by (intro exI [of _ "if t = s then Borrowed s else Owned t"]) (simp add: url_decode_def)
qed (auto simp: url_decode_def)

lemma decode_or_default_loop:
  "decode_or_default s = (case decode_loop [] s of Ok t \<Rightarrow> t | _ \<Rightarrow> [])"
  by (cases "decode_loop [] s") (simp_all add: decode_or_default_def url_decode_def)

lemma decode_or_default_percent: "decode_or_default (percent_encode bs) = map unat bs"
  using decode_loop_append_percent [of "[]" bs "[]"] by (simp add: decode_or_default_loop)

text \<open>C14: query strings round-trip.  Build a query from any list of byte-string keys and values,
  percent-encoding every byte: parsing it binds each key, read back byte for byte as Latin-1
  characters, to the value that was listed last for it, and nothing else.\<close>

theorem query_roundtrip:
  assumes "63 \<notin> set p"
    and "req_path r =
      p @ 63 # join_with 38 (map (\<lambda>(k, v). percent_encode k @ 61 # percent_encode v) kvs)"
  shows "\<exists>m. query_params r = Ok m \<and>
    (\<forall>key. hm_get m key = map_of (rev (map (\<lambda>(k, v). (map unat k, map unat v)) kvs)) key)"
proof -
  let ?enc = "\<lambda>(k, v). percent_encode k @ 61 # percent_encode v"
  have no_amp: "\<forall>x \<in> set (map ?enc kvs). 38 \<notin> set x"
    using percent_encode_chars by fastforce
  have pair: "query_pair (?enc kv) = (\<lambda>(k, v). (map unat k, map unat v)) kv" for kv
  proof -
    obtain k v where kv: "kv = (k, v)" by fastforce
    have "61 \<notin> set (percent_encode k)" using percent_encode_chars by blast
    then show ?thesis by (simp add: kv query_pair_def decode_or_default_percent)
  qed
  have has_eq: "filter (\<lambda>x. 61 \<in> set x) (map ?enc kvs) = map ?enc kvs"
    by (rule filter_True) auto
  have "query_pairs (req_path r) = map (\<lambda>(k, v). (map unat k, map unat v)) kvs"
  proof (cases kvs)
    case Nil
    then show ?thesis using assms by (simp add: query_pairs_def)
  next
    case Cons
    then have "split_on 38 (join_with 38 (map ?enc kvs)) = map ?enc kvs"
      using no_amp by (intro split_on_join_with) auto
    then show ?thesis
      using assms has_eq pair by (simp add: query_pairs_def comp_def)
  qed
  then show ?thesis
    by (simp add: query_params_fold hm.get_fold_insert_empty)
qed

theorem query_roundtrip_witness:
  "\<exists>m. query_params \<lparr>req_method = lit ''GET'', req_path = lit ''/q?%61=%62'', req_version = 1,
     req_headers = [], req_body = []\<rparr> = Ok m \<and>
    (\<forall>key. hm_get m key = map_of (rev (map (\<lambda>(k, v). (map unat k, map unat v))
       [([97 :: byte], [98 :: byte])])) key)"
  by (rule query_roundtrip [where p = "lit ''/q''"])
    (simp_all add: lit_def hex_digit_def)

text \<open>The decoder reads percent-escaped UTF-8 byte by byte as Latin-1, so decoding the escaped
  form of a string gives the string back exactly when the string is ASCII.\<close>

theorem decode_escaped_utf8:
  "\<exists>c. url_decode (percent_encode (as_bytes s)) = Ok c \<and>
     cow_str c = map unat (as_bytes s) \<and> (cow_str c = s \<longleftrightarrow> is_ascii_str s)"
proof -
  have "decode_loop [] (percent_encode (as_bytes s)) = Ok (map unat (as_bytes s))"
    using decode_loop_append_percent [of "[]" "as_bytes s" "[]"] by simp
  then obtain c where "url_decode (percent_encode (as_bytes s)) = Ok c"
    and "cow_str c = map unat (as_bytes s)"
    using url_decode_Ok_iff by blast
  then show ?thesis
    by (simp add: map_unat_as_bytes_iff)
qed

text \<open>Which escapes the decoder accepts: a percent sign and two characters decode exactly when the
  second is a hex digit and the first is a hex digit or a plus sign (the sign that the standard
  library's radix parser skips); anything else is the formatting error, never a panic.\<close>

theorem escape_accepted_iff:
  "url_decode [37, h1, h2] \<noteq> Panic \<and>
   ((\<exists>c. url_decode [37, h1, h2] = Ok c) \<longleftrightarrow>
      (h1 = 43 \<or> (\<exists>d. to_digit 16 h1 = Some d)) \<and> (\<exists>d. to_digit 16 h2 = Some d)) \<and>
   url_decode [37, 43, 53] = Ok (Owned [5])"
proof -
  have "url_decode [37, 43, 53] = Ok (Owned [5])"
    by (simp add: url_decode_def parse_uint_two_hex to_digit_def)
  moreover have "(\<exists>c. url_decode [37, h1, h2] = Ok c) \<longleftrightarrow> (\<exists>t. decode_loop [] [37, h1, h2] = Ok t)"
    by (auto simp: url_decode_def)
  ultimately show ?thesis
    by (auto simp: url_decode_def decode_loop_not_Panic parse_uint_two_hex split: option.splits)
qed

section \<open>Content length and body\<close>

text \<open>A Content-Length header holding the decimal text of a number reads back as that number when
  it fits a 64-bit \<open>usize\<close> and as absent when it does not.\<close>

theorem content_length_decimal:
  assumes "get_header uni r (lit ''content-length'') = Some (show_nat n)"
  shows "content_length uni r = (if n < 2 ^ 64 then Some n else None)"
  using assms by (simp add: content_length_def parse_uint_show_nat)

theorem content_length_decimal_witness:
  "content_length (\<lambda>s. s) \<lparr>req_method = [], req_path = [], req_version = 1,
     req_headers = [(lit ''content-length'', show_nat 42)], req_body = []\<rparr> =
   (if (42 :: nat) < 2 ^ 64 then Some 42 else None)"
  by (rule content_length_decimal)
    (simp add: get_header_def hm_get_def to_lowercase_def is_ascii_str_def lit_def ascii_lower_def)

lemma content_length_bound: "content_length uni r = Some n \<Longrightarrow> n < 2 ^ 64"
  using parse_uint_bound [of 10 64] by (auto simp: content_length_def bind_eq_Some_conv)

end
