(* ===== verification/Http_Response.thy ===== *)
theory Http_Response
  imports Rust_Str Hash_Map
begin

text \<open>
  \<open>src/http/response.rs\<close>: the response builder and its serialisation.  The iteration order of the
  header map is a parameter of \<open>to_bytes\<close>, the JSON serialiser (\<open>serde_json\<close>) one of \<open>json\<close>.
  The theorems say what a client reads back from the bytes, with a reference reader.
\<close>

section \<open>Responses\<close>

record http_response =
  resp_status_code :: u16
  resp_status_text :: rstr
  resp_headers :: "(rstr, rstr) hmap"
  resp_body :: "byte list"

definition status_text_for_code :: "u16 \<Rightarrow> rstr" where
  "status_text_for_code code = lit
    (if code = 200 then ''OK''
     else if code = 201 then ''Created''
     else if code = 204 then ''No Content''
     else if code = 301 then ''Moved Permanently''
     else if code = 302 then ''Found''
     else if code = 304 then ''Not Modified''
     else if code = 400 then ''Bad Request''
     else if code = 401 then ''Unauthorized''
     else if code = 403 then ''Forbidden''
     else if code = 404 then ''Not Found''
     else if code = 405 then ''Method Not Allowed''
     else if code = 408 then ''Request Timeout''
     else if code = 413 then ''Payload Too Large''
     else if code = 414 then ''URI Too Long''
     else if code = 500 then ''Internal Server Error''
     else if code = 501 then ''Not Implemented''
     else if code = 502 then ''Bad Gateway''
     else if code = 503 then ''Service Unavailable''
     else if code = 504 then ''Gateway Timeout''
     else ''Unknown'')"

definition HttpResponse_new :: "u16 \<Rightarrow> http_response" where
  "HttpResponse_new code =
    \<lparr>resp_status_code = code,
     resp_status_text = status_text_for_code code,
     resp_headers =
       hm_insert (lit ''Connection'') (lit ''keep-alive'')
         (hm_insert (lit ''Server'') (lit ''RustKernelEngine/0.1'') []),
     resp_body = []\<rparr>"

definition set_body :: "byte list \<Rightarrow> http_response \<Rightarrow> http_response" where
  "set_body b r =
    r\<lparr>resp_body := b,
      resp_headers := hm_insert (lit ''Content-Length'') (show_nat (length b)) (resp_headers r)\<rparr>"

definition ok_response :: http_response where
  "ok_response = HttpResponse_new 200"

definition not_found :: http_response where
  "not_found = set_body (as_bytes (lit ''404 Not Found'')) (HttpResponse_new 404)"

definition internal_error :: http_response where
  "internal_error = set_body (as_bytes (lit ''500 Internal Server Error'')) (HttpResponse_new 500)"

definition bad_request :: http_response where
  "bad_request = set_body (as_bytes (lit ''400 Bad Request'')) (HttpResponse_new 400)"

text \<open>The shared tail of \<open>json\<close>, \<open>html\<close> and \<open>text\<close>: body, then type, then length.\<close>

definition typed_body :: "string \<Rightarrow> byte list \<Rightarrow> http_response \<Rightarrow> http_response" where
  "typed_body ctype b r =
    r\<lparr>resp_body := b,
      resp_headers :=
        hm_insert (lit ''Content-Length'') (show_nat (length b))
          (hm_insert (lit ''Content-Type'') (lit ctype) (resp_headers r))\<rparr>"

text \<open>The JSON values the program makes with the \<open>json!\<close> macro.\<close>

datatype json_value = JString rstr | JNumber u64 | JObject "(rstr \<times> json_value) list"

definition json_response ::
    "('a \<Rightarrow> byte list option) \<Rightarrow> 'a \<Rightarrow> http_response \<Rightarrow> http_response" where
  "json_response to_vec data r =
    (case to_vec data of
       Some json \<Rightarrow> typed_body ''application/json'' json r
     | None \<Rightarrow> r)"

definition html_response :: "rstr \<Rightarrow> http_response \<Rightarrow> http_response" where
  "html_response html r = typed_body ''text/html; charset=utf-8'' (as_bytes html) r"

definition text_response :: "rstr \<Rightarrow> http_response \<Rightarrow> http_response" where
  "text_response t r = typed_body ''text/plain; charset=utf-8'' (as_bytes t) r"

definition with_header :: "rstr \<Rightarrow> rstr \<Rightarrow> http_response \<Rightarrow> http_response" where
  "with_header name value r = r\<lparr>resp_headers := hm_insert name value (resp_headers r)\<rparr>"

section \<open>Serialisation\<close>

definition crlf :: rstr where
  "crlf = [13, 10]"

definition status_line :: "http_response \<Rightarrow> rstr" where
  "status_line r =
    lit ''HTTP/1.1 '' @ show_nat (unat (resp_status_code r)) @ lit '' '' @ resp_status_text r @ crlf"

definition header_line :: "rstr \<times> rstr \<Rightarrow> rstr" where
  "header_line = (\<lambda>(name, value). name @ lit '': '' @ value @ crlf)"

fun extend_headers :: "byte list \<Rightarrow> (rstr \<times> rstr) list \<Rightarrow> byte list" where
  "extend_headers out [] = out"
| "extend_headers out (h # hs) = extend_headers (out @ as_bytes (header_line h)) hs"

definition to_bytes ::
    "((rstr \<times> rstr) list \<Rightarrow> (rstr \<times> rstr) list) \<Rightarrow> http_response \<Rightarrow> byte list" where
  "to_bytes ord r =
    (let out = [] @ as_bytes (status_line r);
         out = extend_headers out (ord (resp_headers r));
         out = out @ as_bytes crlf
     in out @ resp_body r)"

definition response_size ::
    "((rstr \<times> rstr) list \<Rightarrow> (rstr \<times> rstr) list) \<Rightarrow> http_response \<Rightarrow> nat" where
  "response_size ord r = length (to_bytes ord r)"

text \<open>The \<open>Display\<close> implementation.\<close>

definition display_response :: "http_response \<Rightarrow> rstr" where
  "display_response r =
    lit ''HTTP/1.1 '' @ show_nat (unat (resp_status_code r)) @ lit '' '' @ resp_status_text r
      @ lit '' ('' @ show_nat (length (resp_body r)) @ lit '' bytes)''"

lemma extend_headers_concat:
  "extend_headers out hs = out @ concat (map (\<lambda>h. as_bytes (header_line h)) hs)"
  by (induction out hs rule: extend_headers.induct) simp_all

lemma to_bytes_eq:
  "to_bytes ord r =
    as_bytes (status_line r) @ concat (map (\<lambda>h. as_bytes (header_line h)) (ord (resp_headers r)))
      @ as_bytes crlf @ resp_body r"
  by (simp add: to_bytes_def extend_headers_concat)

section \<open>Invariants of the builder\<close>

text \<open>
  Text that can go on a line of the head: valid characters and no carriage return; a header name
  has no colon either, and is not empty.
\<close>

definition line_safe :: "rstr \<Rightarrow> bool" where
  "line_safe s \<longleftrightarrow> valid_str s \<and> 13 \<notin> set s"

definition name_safe :: "rstr \<Rightarrow> bool" where
  "name_safe s \<longleftrightarrow> line_safe s \<and> s \<noteq> [] \<and> 58 \<notin> set s"

definition header_safe :: "rstr \<times> rstr \<Rightarrow> bool" where
  "header_safe h \<longleftrightarrow> name_safe (fst h) \<and> line_safe (snd h)"

text \<open>What the head needs to be read back, and with it what the handlers' responses satisfy.\<close>

definition head_wf :: "http_response \<Rightarrow> bool" where
  "head_wf r \<longleftrightarrow>
    hm_wf (resp_headers r) \<and> line_safe (resp_status_text r) \<and>
    list_all header_safe (resp_headers r)"

definition response_wf :: "http_response \<Rightarrow> bool" where
  "response_wf r \<longleftrightarrow> head_wf r \<and>
    (\<forall>v. hm_get (resp_headers r) (lit ''Content-Length'') = Some v \<longrightarrow>
       v = show_nat (length (resp_body r))) \<and>
    (hm_get (resp_headers r) (lit ''Content-Length'') = None \<longrightarrow> resp_body r = [])"

definition framed :: "http_response \<Rightarrow> bool" where
  "framed r \<longleftrightarrow>
    hm_get (resp_headers r) (lit ''Content-Length'') = Some (show_nat (length (resp_body r)))"

text \<open>
  The responses the server's own handlers can make: headers that are safe on a line, and the length
  left to the body methods.  What the interface allows beyond that is below, as sequences of calls.
\<close>

inductive safe_built :: "http_response \<Rightarrow> bool" where
  safe_built_new: "safe_built (HttpResponse_new code)"
| safe_built_set_body: "safe_built r \<Longrightarrow> safe_built (set_body b r)"
| safe_built_json: "safe_built r \<Longrightarrow> safe_built (json_response to_vec (d :: json_value) r)"
| safe_built_html: "safe_built r \<Longrightarrow> safe_built (html_response t r)"
| safe_built_text: "safe_built r \<Longrightarrow> safe_built (text_response t r)"
| safe_built_with_header:
    "safe_built r \<Longrightarrow> name_safe n \<Longrightarrow> line_safe v \<Longrightarrow> n \<noteq> lit ''Content-Length'' \<Longrightarrow>
     safe_built (with_header n v r)"

lemmas builder_defs =
  set_body_def typed_body_def json_response_def html_response_def text_response_def
  with_header_def

lemma line_safe_show_nat [simp]: "line_safe (show_nat n)"
  using show_nat_digits [of _ n] by (fastforce simp: line_safe_def valid_str_def scalar_def)

lemma line_safe_lit:
  "list_all (\<lambda>c. c < 128 \<and> c \<noteq> 13) (lit s) \<Longrightarrow> line_safe (lit s)"
  by (auto simp: line_safe_def valid_str_def list_all_iff scalar_def)

lemma line_safe_status_text [simp]: "line_safe (status_text_for_code code)"
  unfolding status_text_for_code_def by (rule line_safe_lit) (simp add: lit_def)

lemma safe_header_names [simp]:
  "name_safe (lit ''Content-Length'')" "name_safe (lit ''Content-Type'')"
  "name_safe (lit ''Server'')" "name_safe (lit ''Connection'')"
  by (simp_all add: name_safe_def line_safe_def valid_str_def scalar_def lit_def)

lemma content_length_name_neq [simp]:
  "lit ''Content-Length'' \<noteq> lit ''Server''" "lit ''Content-Length'' \<noteq> lit ''Connection''"
  "lit ''Content-Length'' \<noteq> lit ''Content-Type''"
  by simp_all

lemma response_wf_new [wf_intros]: "response_wf (HttpResponse_new code)"
proof -
  have "line_safe (lit ''keep-alive'')" "line_safe (lit ''RustKernelEngine/0.1'')"
    by (rule line_safe_lit, simp add: lit_def)+
  then show ?thesis
    by (simp add: response_wf_def head_wf_def HttpResponse_new_def wf_intros list_all_hm_insert header_safe_def
        hm.get_insert hm.get_empty)
qed

lemma response_wf_set_body [wf_intros]: "response_wf r \<Longrightarrow> response_wf (set_body b r)"
  by (simp add: response_wf_def head_wf_def set_body_def wf_intros list_all_hm_insert header_safe_def
      hm.get_insert)

lemma response_wf_typed_body [wf_intros]:
  "response_wf r \<Longrightarrow> line_safe (lit ct) \<Longrightarrow> response_wf (typed_body ct b r)"
  by (simp add: response_wf_def head_wf_def typed_body_def wf_intros list_all_hm_insert header_safe_def
      hm.get_insert)

lemma response_wf_with_header [wf_intros]:
  "response_wf r \<Longrightarrow> name_safe n \<Longrightarrow> line_safe v \<Longrightarrow> n \<noteq> lit ''Content-Length'' \<Longrightarrow>
    response_wf (with_header n v r)"
  by (simp add: response_wf_def head_wf_def with_header_def wf_intros list_all_hm_insert header_safe_def
      hm.get_insert)

lemma safe_content_types [simp]:
  "line_safe (lit ''application/json'')" "line_safe (lit ''text/html; charset=utf-8'')"
  "line_safe (lit ''text/plain; charset=utf-8'')"
  by (rule line_safe_lit, simp add: lit_def)+

text \<open>Every response the builder can make is well-formed.\<close>

lemma safe_built_wf: "safe_built r \<Longrightarrow> response_wf r"
proof (induction rule: safe_built.induct)
  case (safe_built_json r to_vec d)
  then show ?case
    by (auto simp: json_response_def intro!: wf_intros split: option.splits)
qed (auto simp: html_response_def text_response_def intro!: wf_intros)

lemma safe_built_head: "safe_built r \<Longrightarrow> head_wf r"
  using safe_built_wf by (simp add: response_wf_def)

lemma framed_set_body [simp]: "framed (set_body b r)"
  by (simp add: framed_def set_body_def hm.get_insert)

lemma framed_typed_body [simp]: "framed (typed_body ct b r)"
  by (simp add: framed_def typed_body_def hm.get_insert)

lemma framed_with_header [simp]:
  "n \<noteq> lit ''Content-Length'' \<Longrightarrow> framed (with_header n v r) = framed r"
  by (auto simp: framed_def with_header_def hm.get_insert)

lemma framed_canned [simp]: "framed not_found" "framed internal_error" "framed bad_request"
  by (simp_all add: not_found_def internal_error_def bad_request_def)

lemma not_framed_new: "\<not> framed (HttpResponse_new code)"
  by (simp add: framed_def HttpResponse_new_def hm.get_insert hm.get_empty)

section \<open>Reading a response back\<close>

text \<open>The reference reader: lines up to CRLF, header lines split at colon and space, an empty line.\<close>

fun read_line :: "byte list \<Rightarrow> (byte list \<times> byte list) option" where
  "read_line (a # b # bs) =
    (if a = 13 \<and> b = 10 then Some ([], bs)
     else map_option (\<lambda>(l, rest). (a # l, rest)) (read_line (b # bs)))"
| "read_line bs = None"

lemma read_line_shorter: "read_line bs = Some (l, rest) \<Longrightarrow> length rest < length bs"
  by (induction bs arbitrary: l rest rule: read_line.induct) (auto split: if_splits)

definition split_colon :: "byte list \<Rightarrow> (byte list \<times> byte list) option" where
  "split_colon l =
    (case dropWhile (\<lambda>b. b \<noteq> 58) l of
       c # sp # value \<Rightarrow> if sp = 32 then Some (takeWhile (\<lambda>b. b \<noteq> 58) l, value) else None
     | _ \<Rightarrow> None)"

function read_headers :: "byte list \<Rightarrow> ((byte list \<times> byte list) list \<times> byte list) option" where
  "read_headers bs =
    (case read_line bs of
       None \<Rightarrow> None
     | Some (l, rest) \<Rightarrow>
         if l = [] then Some ([], rest)
         else (case split_colon l of
                 None \<Rightarrow> None
               | Some h \<Rightarrow> map_option (\<lambda>(hs, b). (h # hs, b)) (read_headers rest)))"
  by pat_completeness auto
termination
  by (relation "measure length") (auto simp: read_line_shorter)

declare read_headers.simps [simp del]

definition read_response ::
    "byte list \<Rightarrow> (byte list \<times> (byte list \<times> byte list) list \<times> byte list) option" where
  "read_response bs =
    (case read_line bs of
       None \<Rightarrow> None
     | Some (l, rest) \<Rightarrow> map_option (\<lambda>(hs, b). (l, hs, b)) (read_headers rest))"

lemma read_line_append: "13 \<notin> set l \<Longrightarrow> read_line (l @ 13 # 10 # bs) = Some (l, bs)"
proof (induction l)
  case (Cons a l)
  then show ?case by (cases l) auto
qed simp

lemma as_bytes_crlf: "as_bytes crlf = [13, 10]"
  by (simp add: crlf_def u8_of_numeral)

lemma line_safe_bytes: "line_safe s \<Longrightarrow> 13 \<notin> set (as_bytes s)"
  using u8_of_in_as_bytes [of s 13] by (simp add: line_safe_def u8_of_numeral)

lemma name_safe_bytes:
  assumes "name_safe s"
  shows "58 \<notin> set (as_bytes s)" and "as_bytes s \<noteq> []"
proof -
  show "58 \<notin> set (as_bytes s)"
    using assms u8_of_in_as_bytes [of s 58]
    by (simp add: name_safe_def line_safe_def u8_of_numeral)
  have "length (as_bytes s) \<noteq> 0" using assms by (simp add: name_safe_def)
  then show "as_bytes s \<noteq> []" by fastforce
qed

lemma read_headers_line:
  assumes "header_safe h"
  shows "read_headers (as_bytes (header_line h) @ bs) =
    map_option (\<lambda>(hs, b). ((as_bytes (fst h), as_bytes (snd h)) # hs, b)) (read_headers bs)"
proof -
  obtain n v where h: "h = (n, v)" by fastforce
  let ?l = "as_bytes n @ 58 # 32 # as_bytes v"
  have n: "name_safe n" and v: "line_safe v"
    using assms by (simp_all add: header_safe_def h)
  then have "13 \<notin> set ?l"
    using line_safe_bytes by (auto simp: name_safe_def)
  then have "read_line (?l @ 13 # 10 # bs) = Some (?l, bs)"
    by (rule read_line_append)
  moreover have "as_bytes (header_line h) @ bs = ?l @ 13 # 10 # bs"
    by (simp add: h header_line_def as_bytes_crlf lit_def u8_of_numeral)
  moreover have "split_colon ?l = Some (as_bytes n, as_bytes v)"
    using name_safe_bytes(1) [OF n] by (simp add: split_colon_def)
  ultimately show ?thesis
    by (subst read_headers.simps) (simp add: h)
qed

lemma read_headers_lines:
  assumes "list_all header_safe hs"
  shows "read_headers (concat (map (\<lambda>h. as_bytes (header_line h)) hs) @ as_bytes crlf @ body) =
    Some (map (\<lambda>(n, v). (as_bytes n, as_bytes v)) hs, body)"
  using assms
proof (induction hs)
  case Nil
  then show ?case by (simp add: read_headers.simps [of "13 # 10 # body"] as_bytes_crlf)
next
  case (Cons h hs)
  then show ?case by (simp add: read_headers_line split: prod.splits)
qed

lemma map_of_as_bytes:
  assumes "\<forall>(n, v) \<in> set hs. valid_str n" and "valid_str k"
  shows "map_of (map (\<lambda>(n, v). (as_bytes n, as_bytes v)) hs) (as_bytes k) =
    map_option as_bytes (map_of hs k)"
  using assms by (induction hs) (auto simp: as_bytes_inject)

lemma list_all_hash_order: "hash_order ord \<Longrightarrow> list_all P (ord m) = list_all P m"
  by (simp add: list_all_iff hash_order_set)

lemma read_to_bytes:
  assumes "hash_order ord" and "head_wf r"
  shows "\<exists>l. l @ [13, 10] = as_bytes (status_line r) \<and>
    read_response (to_bytes ord r) =
      Some (l, map (\<lambda>(n, v). (as_bytes n, as_bytes v)) (ord (resp_headers r)), resp_body r)"
proof -
  define sl where
    "sl = lit ''HTTP/1.1 '' @ show_nat (unat (resp_status_code r)) @ lit '' '' @ resp_status_text r"
  have sl: "status_line r = sl @ crlf"
    by (simp add: status_line_def sl_def)
  have "line_safe (lit ''HTTP/1.1 '')" "line_safe (lit '' '')"
    by (rule line_safe_lit, simp add: lit_def)+
  then have "line_safe sl"
    using assms(2) line_safe_show_nat [of "unat (resp_status_code r)"]
    by (simp add: sl_def head_wf_def line_safe_def)
  then have "13 \<notin> set (as_bytes sl)" by (rule line_safe_bytes)
  moreover have "list_all header_safe (ord (resp_headers r))"
    using assms by (simp add: list_all_hash_order head_wf_def)
  ultimately show ?thesis
    using read_headers_lines [of "ord (resp_headers r)" "resp_body r"]
    by (simp add: to_bytes_eq read_response_def sl as_bytes_crlf read_line_append)
qed

lemma header_safe_valid: "list_all header_safe hs \<Longrightarrow> \<forall>(n, v) \<in> set hs. valid_str n"
  by (auto simp: list_all_iff header_safe_def name_safe_def line_safe_def)

lemma read_head:
  assumes "hash_order ord" and "head_wf r"
  shows "\<exists>l hs. read_response (to_bytes ord r) = Some (l, hs, resp_body r) \<and>
    l @ [13, 10] = as_bytes (status_line r) \<and>
    (\<forall>n. valid_str n \<longrightarrow>
       map_of hs (as_bytes n) = map_option as_bytes (hm_get (resp_headers r) n))"
proof -
  let ?hs = "ord (resp_headers r)"
  have "list_all header_safe ?hs"
    using assms by (simp add: list_all_hash_order head_wf_def)
  then have "map_of (map (\<lambda>(n, v). (as_bytes n, as_bytes v)) ?hs) (as_bytes n) =
      map_option as_bytes (hm_get (resp_headers r) n)" if "valid_str n" for n
    using hash_order_get [OF assms(1), of "resp_headers r" n] assms(2) that
    by (simp add: map_of_as_bytes header_safe_valid head_wf_def hm_get_def)
  then show ?thesis
    using read_to_bytes [OF assms] by blast
qed

text \<open>A header value is written as it is: a line break in it starts a header of its own.\<close>

lemma header_line_injection:
  assumes "header_safe (n, v)" and "header_safe (n', v')"
  shows "read_headers (as_bytes (header_line (n, v @ crlf @ n' @ lit '': '' @ v')) @ bs) =
    map_option (\<lambda>(hs, b). ((as_bytes n, as_bytes v) # (as_bytes n', as_bytes v') # hs, b)) (read_headers bs)"
proof -
  have "header_line (n, v @ crlf @ n' @ lit '': '' @ v') = header_line (n, v) @ header_line (n', v')"
    by (simp add: header_line_def)
  then show ?thesis
    by (simp add: read_headers_line [OF assms(1)] read_headers_line [OF assms(2)]
        option.map_comp comp_def case_prod_unfold)
qed

section \<open>Everything the builder can make\<close>

text \<open>
  A call of the builder: the four methods that set a body (the JSON serialiser can fail) and
  \<open>with_header\<close>, which takes any name and any value.  A response is made by a sequence of calls.
\<close>

datatype 'a builder_call =
    SetBody "byte list"
  | Json "'a \<Rightarrow> byte list option" 'a
  | Html rstr
  | Text rstr
  | WithHeader rstr rstr

fun apply_call :: "'a builder_call \<Rightarrow> http_response \<Rightarrow> http_response" where
  "apply_call (SetBody b) r = set_body b r"
| "apply_call (Json to_vec d) r = json_response to_vec d r"
| "apply_call (Html t) r = html_response t r"
| "apply_call (Text t) r = text_response t r"
| "apply_call (WithHeader n v) r = with_header n v r"

definition build :: "u16 \<Rightarrow> 'a builder_call list \<Rightarrow> http_response" where
  "build code calls = fold apply_call calls (HttpResponse_new code)"

fun writes_body :: "'a builder_call \<Rightarrow> bool" where
  "writes_body (Json to_vec d) \<longleftrightarrow> to_vec d \<noteq> None"
| "writes_body (WithHeader n v) \<longleftrightarrow> False"
| "writes_body _ \<longleftrightarrow> True"

lemma build_snoc [simp]:
  "build code [] = HttpResponse_new code" "build code (calls @ [c]) = apply_call c (build code calls)"
  by (simp_all add: build_def)

lemma build_hm_wf: "hm_wf (resp_headers (build code calls))"
proof (induction calls rule: rev_induct)
  case Nil
  show ?case by (simp add: HttpResponse_new_def wf_intros)
next
  case (snoc c calls)
  then show ?case by (cases c) (auto simp: builder_defs wf_intros split: option.split)
qed

lemma build_status_text: "resp_status_text (build code calls) = status_text_for_code code"
proof (induction calls rule: rev_induct)
  case Nil
  show ?case by (simp add: HttpResponse_new_def)
next
  case (snoc c calls)
  then show ?case by (cases c) (auto simp: builder_defs split: option.split)
qed

lemma framed_apply_call: "writes_body c \<Longrightarrow> framed (apply_call c r)"
  by (cases c) (auto simp: html_response_def text_response_def json_response_def)

lemma build_framed:
  assumes "\<forall>v. WithHeader (lit ''Content-Length'') v \<notin> set calls"
  shows "if list_ex writes_body calls then framed (build code calls)
    else hm_get (resp_headers (build code calls)) (lit ''Content-Length'') = None \<and>
      resp_body (build code calls) = []"
  using assms
proof (induction calls rule: rev_induct)
  case Nil
  show ?case by (simp add: HttpResponse_new_def hm.get_insert hm.get_empty)
next
  case (snoc c calls)
  show ?case
  proof (cases "writes_body c")
    case True
    then show ?thesis by (simp add: framed_apply_call)
  next
    case False
    then consider n v where "c = WithHeader n v" "n \<noteq> lit ''Content-Length''"
      | to_vec d where "c = Json to_vec d" "to_vec d = None"
      using snoc.prems by (cases c) auto
    then show ?thesis
      using snoc by cases (auto simp: json_response_def with_header_def hm.get_insert framed_def)
  qed
qed

text \<open>C7: responses round-trip over the wire.  Take a response made by any calls of the builder, whose
  header names are not empty and contain no colon or carriage return and whose header values contain
  no carriage return (the builder checks neither).  In every iteration order of its header map, a
  client reads back the status line, exactly the headers of the map under their names, and the body
  byte for byte.\<close>

theorem response_roundtrip:
  assumes "hash_order ord" and "r = build code calls" and "list_all header_safe (resp_headers r)"
  shows "\<exists>l hs. read_response (to_bytes ord r) = Some (l, hs, resp_body r) \<and>
    l @ [13, 10] = as_bytes (status_line r) \<and>
    (\<forall>n. valid_str n \<longrightarrow>
       map_of hs (as_bytes n) = map_option as_bytes (hm_get (resp_headers r) n))"
proof -
  have "head_wf r"
    using assms(2,3) by (simp add: head_wf_def build_hm_wf build_status_text)
  with assms(1) show ?thesis by (rule read_head)
qed

theorem response_roundtrip_witness:
  "let r = build 200 [Text [104, 105], WithHeader [88] [121] :: unit builder_call] in
    \<exists>l hs. read_response (to_bytes rev r) = Some (l, hs, resp_body r) \<and>
    l @ [13, 10] = as_bytes (status_line r) \<and> resp_body r = [104, 105] \<and>
    map_of hs (as_bytes [88]) = Some (as_bytes [121])"
proof -
  define r where "r = build 200 [Text [104, 105], WithHeader [88] [121] :: unit builder_call]"
  have "list_all header_safe (resp_headers r)"
    by (simp add: r_def build_def HttpResponse_new_def builder_defs hm_insert_def header_safe_def name_safe_def
        lit_def line_safe_def scalar_def show_nat.simps)
  from response_roundtrip [OF _ r_def this, of rev] obtain l hs where
    "read_response (to_bytes rev r) = Some (l, hs, resp_body r)" "l @ [13, 10] = as_bytes (status_line r)"
    "\<forall>n. valid_str n \<longrightarrow> map_of hs (as_bytes n) = map_option as_bytes (hm_get (resp_headers r) n)"
    by (auto simp: hash_order_def)
  moreover have "resp_body r = [104, 105]" "hm_get (resp_headers r) [88] = Some [121]" "valid_str [88]"
    by (simp_all add: r_def build_def builder_defs hm.get_insert scalar_def u8_of_numeral)
  ultimately show ?thesis
    by (metis option.map(2) r_def)
qed

text \<open>C37: message framing.  Unless \<open>with_header\<close> was called with the name Content-Length, after any calls
  of the builder the Content-Length header states the length of the body, or there is none and the
  body is empty because no call has set one.  A call of \<open>with_header\<close> with that name puts its value
  there whatever the body is, and any call that sets a body afterwards puts the length back (JSON
  only when the serialiser succeeds).\<close>

theorem content_length_invariant:
  "let r = build code calls in
    ((\<forall>v. WithHeader (lit ''Content-Length'') v \<notin> set calls) \<longrightarrow>
       (if list_ex writes_body calls
        then hm_get (resp_headers r) (lit ''Content-Length'') = Some (show_nat (length (resp_body r)))
        else hm_get (resp_headers r) (lit ''Content-Length'') = None \<and> resp_body r = [])) \<and>
    hm_get (resp_headers (with_header (lit ''Content-Length'') v r)) (lit ''Content-Length'') = Some v \<and>
    resp_body (with_header (lit ''Content-Length'') v r) = resp_body r \<and>
    (writes_body c \<longrightarrow>
       hm_get (resp_headers (apply_call c r)) (lit ''Content-Length'') =
         Some (show_nat (length (resp_body (apply_call c r)))))"
  using build_framed [of calls code] framed_apply_call [of c "build code calls"]
  by (auto simp: Let_def framed_def with_header_def hm.get_insert)

theorem content_length_invariant_witness:
  "let r = build 200 [Html [97], WithHeader [88] [121] :: unit builder_call];
      r' = with_header (lit ''Content-Length'') [48] r in
    hm_get (resp_headers r) (lit ''Content-Length'') = Some (show_nat 1) \<and>
    hm_get (resp_headers r') (lit ''Content-Length'') = Some [48] \<and> resp_body r' = [97]"
proof -
  let ?calls = "[Html [97], WithHeader [88] [121] :: unit builder_call]"
  have "\<forall>v. WithHeader (lit ''Content-Length'') v \<notin> set ?calls" by (simp add: lit_def)
  moreover have "resp_body (build 200 ?calls) = [97]"
    by (simp add: build_def builder_defs u8_of_numeral)
  ultimately show ?thesis
    using content_length_invariant [of 200 ?calls "[48]" "Json (\<lambda>_. None) ()"] by (simp add: Let_def)
qed

text \<open>The size of a response does not depend on the order in which the header map is iterated: it
  is the sum of the lengths of its lines, the blank line and the body.\<close>

theorem response_size_order:
  assumes "hash_order ord"
  shows "response_size ord r =
    str_len (status_line r) + (\<Sum>h \<leftarrow> resp_headers r. str_len (header_line h)) + 2
      + length (resp_body r)"
proof -
  let ?n = "\<lambda>h. str_len (header_line h)"
  have "mset (map ?n (ord hs)) = mset (map ?n hs)" for hs
    using assms by (simp add: hash_order_def)
  then have "sum_list (map ?n (ord hs)) = sum_list (map ?n hs)" for hs
    by (metis sum_mset_sum_list)
  then show ?thesis
    by (simp add: response_size_def to_bytes_eq as_bytes_crlf length_concat comp_def)
qed

theorem response_size_order_witness:
  "response_size rev not_found =
    str_len (status_line not_found) + (\<Sum>h \<leftarrow> resp_headers not_found. str_len (header_line h)) + 2
      + length (resp_body not_found)"
  by (rule response_size_order) (simp add: hash_order_def)

end
