(* ===== verification/Request_Wire.thy ===== *)
theory Request_Wire
  imports Http_Parser Http_Response
begin

text \<open>
  Requests on the wire: the rendering of a request, what the third-party tokenizer \<open>httparse\<close> promises
  of it (\<open>httparse_law\<close>), a tokenizer that keeps the promise, and the round trip through the parser
  of \<open>src/http/parser.rs\<close>.
\<close>

section \<open>Rendering\<close>

definition render_request :: "rstr \<Rightarrow> rstr \<Rightarrow> nat \<Rightarrow> (rstr \<times> rstr) list \<Rightarrow> rstr" where
  "render_request meth path minor hs =
    (meth @ lit '' '' @ path @ lit '' HTTP/1.'' @ [48 + minor]) @ crlf @ concat (map header_line hs) @ crlf"

text \<open>
  The characters of a token (RFC 9110), plain characters of a target, and header values of visible
  characters with spaces inside only.  \<open>httparse\<close> takes more than that; nothing is said of the rest.
\<close>

definition alnum :: "rchar \<Rightarrow> bool" where
  "alnum c \<longleftrightarrow> (48 \<le> c \<and> c \<le> 57) \<or> (65 \<le> c \<and> c \<le> 90) \<or> (97 \<le> c \<and> c \<le> 122)"

definition tchar :: "rchar \<Rightarrow> bool" where
  "tchar c \<longleftrightarrow> alnum c \<or> c \<in> set (lit ''!#$&*+-.^_|~'')"

definition target_char :: "rchar \<Rightarrow> bool" where
  "target_char c \<longleftrightarrow> alnum c \<or> c \<in> set (lit ''/-._~%?=&+'')"

definition is_token :: "rstr \<Rightarrow> bool" where
  "is_token s \<longleftrightarrow> s \<noteq> [] \<and> list_all tchar s"

definition is_target :: "rstr \<Rightarrow> bool" where
  "is_target s \<longleftrightarrow> s \<noteq> [] \<and> hd s = 47 \<and> list_all target_char s"

definition is_value :: "rstr \<Rightarrow> bool" where
  "is_value s \<longleftrightarrow> s \<noteq> [] \<and> list_all (\<lambda>c. 32 \<le> c \<and> c \<le> 126) s \<and> hd s \<noteq> 32 \<and> last s \<noteq> 32"

definition request_ok :: "rstr \<Rightarrow> rstr \<Rightarrow> nat \<Rightarrow> (rstr \<times> rstr) list \<Rightarrow> bool" where
  "request_ok meth path minor hs \<longleftrightarrow> is_token meth \<and> is_target path \<and> minor \<le> 1 \<and>
    list_all (\<lambda>(n, v). is_token n \<and> is_value v) hs"

text \<open>
  The promise: a head of this form, with no more headers than the array has room for, is complete
  whatever follows it, its length is the length reported, and its parts are the fields, header
  values as bytes; with more headers than that it is refused.
\<close>

definition httparse_law :: "httparse \<Rightarrow> bool" where
  "httparse_law hp \<longleftrightarrow>
    (\<forall>n meth path minor hs body. request_ok meth path minor hs \<longrightarrow>
       hp n (as_bytes (render_request meth path minor hs) @ body) =
         (if length hs \<le> n then
            Some (Complete (length (as_bytes (render_request meth path minor hs))),
              \<lparr>hp_method = Some meth, hp_path = Some path, hp_version = Some (word_of_nat minor),
               hp_headers = map (\<lambda>(n, v). (n, as_bytes v)) hs\<rparr>)
          else None))"

section \<open>Reading back\<close>

lemma read_request:
  assumes "line_safe l" and "list_all header_safe hs"
  shows "read_response (as_bytes (l @ crlf @ concat (map header_line hs) @ crlf) @ body) =
    Some (as_bytes l, map (\<lambda>(n, v). (as_bytes n, as_bytes v)) hs, body)"
proof -
  have "as_bytes (concat (map header_line hs)) = concat (map (\<lambda>h. as_bytes (header_line h)) hs)"
    by (induction hs) simp_all
  then have "as_bytes (l @ crlf @ concat (map header_line hs) @ crlf) @ body =
      as_bytes l @ 13 # 10 # concat (map (\<lambda>h. as_bytes (header_line h)) hs) @ as_bytes crlf @ body"
    by (simp add: as_bytes_crlf)
  then show ?thesis
    using line_safe_bytes [OF assms(1)] read_headers_lines [OF assms(2), of body]
    by (simp add: read_response_def read_line_append del: as_bytes_append)
qed

lemma ascii_unat_bytes: "list_all (\<lambda>c. c < 128) s \<Longrightarrow> map unat (as_bytes s) = s"
  using map_unat_as_bytes_iff [of s] by (simp add: is_ascii_str_def list_all_iff)

lemma tchar_range: "tchar c \<Longrightarrow> c < 128 \<and> c \<noteq> 32 \<and> c \<noteq> 13 \<and> c \<noteq> 58"
  by (auto simp: tchar_def alnum_def lit_def)

lemma target_char_range: "target_char c \<Longrightarrow> c < 128 \<and> c \<noteq> 32 \<and> c \<noteq> 13"
  by (auto simp: target_char_def alnum_def lit_def)

lemma ascii_line_safe: "list_all (\<lambda>c. c < 128 \<and> c \<noteq> 13) s \<Longrightarrow> line_safe s"
  by (induction s) (simp_all add: line_safe_def scalar_def)

lemma token_chars:
  assumes "is_token s"
  shows "list_all (\<lambda>c. c < 128) s" and "name_safe s" and "32 \<notin> set s"
proof -
  have c: "c < 128 \<and> c \<noteq> 32 \<and> c \<noteq> 13 \<and> c \<noteq> 58" if "c \<in> set s" for c
    using assms that by (intro tchar_range) (simp add: is_token_def list_all_iff)
  show "list_all (\<lambda>c. c < 128) s" "32 \<notin> set s"
    using c by (auto simp: list_all_iff)
  have "line_safe s" using c by (intro ascii_line_safe) (simp add: list_all_iff)
  then show "name_safe s" using assms c by (auto simp: name_safe_def is_token_def)
qed

lemma target_chars:
  assumes "is_target s"
  shows "list_all (\<lambda>c. c < 128) s" and "line_safe s" and "32 \<notin> set s"
proof -
  have c: "c < 128 \<and> c \<noteq> 32 \<and> c \<noteq> 13" if "c \<in> set s" for c
    using assms that by (intro target_char_range) (simp add: is_target_def list_all_iff)
  show "list_all (\<lambda>c. c < 128) s" "32 \<notin> set s"
    using c by (auto simp: list_all_iff)
  show "line_safe s" using c by (intro ascii_line_safe) (simp add: list_all_iff)
qed

lemma value_chars:
  assumes "is_value s"
  shows "list_all (\<lambda>c. c < 128) s" and "line_safe s"
proof -
  have c: "c < 128 \<and> c \<noteq> 13" if "c \<in> set s" for c
    using assms that by (fastforce simp: is_value_def list_all_iff)
  show "list_all (\<lambda>c. c < 128) s" using c by (auto simp: list_all_iff)
  show "line_safe s" using c by (intro ascii_line_safe) (simp add: list_all_iff)
qed

lemma read_rendered:
  assumes "request_ok meth path minor hs"
  shows "read_response (as_bytes (render_request meth path minor hs) @ body) =
    Some (as_bytes (meth @ lit '' '' @ path @ lit '' HTTP/1.'' @ [48 + minor]),
      map (\<lambda>(n, v). (as_bytes n, as_bytes v)) hs, body)"
proof -
  have "line_safe (meth @ lit '' '' @ path @ lit '' HTTP/1.'' @ [48 + minor])"
    using assms token_chars(2) [of meth] target_chars(2) [of path]
    by (simp add: request_ok_def name_safe_def line_safe_def lit_def scalar_def)
  moreover have "list_all header_safe hs"
    using assms token_chars(2) value_chars(2)
    by (fastforce simp: request_ok_def header_safe_def list_all_iff)
  ultimately show ?thesis
    unfolding render_request_def by (rule read_request)
qed

text \<open>A tokenizer that keeps the promise, from the reference reader.\<close>

definition ref_httparse :: httparse where
  "ref_httparse n bs =
    (case read_response bs of
       None \<Rightarrow> None
     | Some (l, hs, body) \<Rightarrow>
         let s = map unat l; rest = tl (dropWhile (\<lambda>c. c \<noteq> 32) s) in
         if length hs \<le> n then
           Some (Complete (length bs - length body),
             \<lparr>hp_method = Some (takeWhile (\<lambda>c. c \<noteq> 32) s), hp_path = Some (takeWhile (\<lambda>c. c \<noteq> 32) rest),
              hp_version = Some (word_of_nat (last s - 48)), hp_headers = map (\<lambda>(n, v). (map unat n, v)) hs\<rparr>)
         else None)"

lemma split_word: "32 \<notin> set a \<Longrightarrow> takeWhile (\<lambda>c. c \<noteq> 32) (a @ 32 # b) = a \<and>
    dropWhile (\<lambda>c. c \<noteq> 32) (a @ 32 # b) = 32 # (b :: rstr)"
  by (induction a) auto

lemma ref_httparse_law: "httparse_law ref_httparse"
  unfolding httparse_law_def
proof (intro allI impI)
  fix n meth path minor hs and body :: "byte list"
  assume ok: "request_ok meth path minor hs"
  let ?l = "meth @ lit '' '' @ path @ lit '' HTTP/1.'' @ [48 + minor]"
  have ascii: "map unat (as_bytes ?l) = ?l"
    using ok token_chars(1) [of meth] target_chars(1) [of path]
    by (intro ascii_unat_bytes) (simp add: request_ok_def lit_def)
  have l: "?l = meth @ 32 # path @ 32 # lit ''HTTP/1.'' @ [48 + minor]"
    by (simp add: lit_def)
  have words: "takeWhile (\<lambda>c. c \<noteq> 32) ?l = meth"
    "takeWhile (\<lambda>c. c \<noteq> 32) (tl (dropWhile (\<lambda>c. c \<noteq> 32) ?l)) = path"
    unfolding l using ok token_chars(3) [of meth] target_chars(3) [of path]
    by (simp_all add: split_word request_ok_def)
  have "(n, map unat (as_bytes n)) = (n, n)" if "(n, v) \<in> set hs" for n v
    using ok that token_chars(1) [of n] ascii_unat_bytes [of n]
    by (fastforce simp: request_ok_def list_all_iff)
  then have names: "map (\<lambda>(n, v). (map unat n, v)) (map (\<lambda>(n, v). (as_bytes n, as_bytes v)) hs) =
      map (\<lambda>(n, v). (n, as_bytes v)) hs"
    by auto
  show "ref_httparse n (as_bytes (render_request meth path minor hs) @ body) =
         (if length hs \<le> n then
            Some (Complete (length (as_bytes (render_request meth path minor hs))),
              \<lparr>hp_method = Some meth, hp_path = Some path, hp_version = Some (word_of_nat minor),
               hp_headers = map (\<lambda>(n, v). (n, as_bytes v)) hs\<rparr>)
          else None)"
    unfolding ref_httparse_def read_rendered [OF ok]
    by (simp only: option.case prod.case Let_def ascii words names) simp
qed

section \<open>The round trip\<close>

lemma ascii_lowercase: "list_all (\<lambda>c. c < 128) s \<Longrightarrow> to_lowercase uni s = map ascii_lower s"
  by (simp add: to_lowercase_ascii is_ascii_str_def list_all_iff)

lemma rendered_header_pairs:
  assumes "request_ok meth path minor hs"
  shows "header_pairs uni (map (\<lambda>(n, v). (n, as_bytes v)) hs) = map (\<lambda>(n, v). (map ascii_lower n, v)) hs"
proof -
  have h: "n \<noteq> [] \<and> to_lowercase uni n = map ascii_lower n \<and> from_utf8_lossy (as_bytes v) = v"
    if "(n, v) \<in> set hs" for n v
  proof -
    have "is_token n" "is_value v"
      using assms that by (auto simp: request_ok_def list_all_iff)
    then show ?thesis
      using token_chars(1) [of n] value_chars(2) [of v]
      by (simp add: ascii_lowercase is_token_def line_safe_def from_utf8_lossy_as_bytes)
  qed
  then have "filter (\<lambda>(n, v). n \<noteq> []) (map (\<lambda>(n, v). (n, as_bytes v)) hs) = map (\<lambda>(n, v). (n, as_bytes v)) hs"
    by (auto simp: filter_id_conv)
  with h show ?thesis by (auto simp: header_pairs_def)
qed

lemma parse_rendered:
  assumes "httparse_law hp" and "request_ok meth path minor hs"
  shows "HttpRequest_parse hp uni (as_bytes (render_request meth path minor hs) @ body) =
    (if length hs \<le> 64 then
       Ok \<lparr>req_method = meth, req_path = path, req_version = word_of_nat minor,
         req_headers = insert_headers uni (map (\<lambda>(n, v). (n, as_bytes v)) hs) [], req_body = body\<rparr>
     else Err ParseFailed)"
  using assms by (simp add: httparse_law_def HttpRequest_parse_def body_of_drop Let_def)

text \<open>C19: requests round-trip over the wire.  Render a request line, header lines and a body, and parse the
  bytes: with at most 64 headers the request has the method, the target, the version and the body,
  byte for byte; looking up a header in any case gives the value of the last header of that name in
  any case, and nothing when there is none; there is one entry per name.  With more than 64 headers
  the request is refused.\<close>

theorem request_roundtrip:
  assumes "httparse_law hp" and "request_ok meth path minor hs"
  shows "case HttpRequest_parse hp uni (as_bytes (render_request meth path minor hs) @ body) of
      Ok r \<Rightarrow> length hs \<le> 64 \<and> req_method r = meth \<and> req_path r = path \<and>
        req_version r = word_of_nat minor \<and> req_body r = body \<and>
        (\<forall>name. list_all (\<lambda>c. c < 128) name \<longrightarrow> get_header uni r name =
           map_of (rev (map (\<lambda>(n, v). (map ascii_lower n, v)) hs)) (map ascii_lower name)) \<and>
        distinct (map fst (req_headers r))
    | Err e \<Rightarrow> 64 < length hs \<and> e = ParseFailed
    | Panic \<Rightarrow> False"
proof -
  have "distinct (map fst (insert_headers uni (map (\<lambda>(n, v). (n, as_bytes v)) hs) []))"
    using insert_headers_wf [of "[]"] by (simp add: hm_wf_def)
  then show ?thesis
    by (simp add: parse_rendered [OF assms] get_header_def insert_headers_get
        rendered_header_pairs [OF assms(2)] ascii_lowercase)
qed

theorem request_roundtrip_witness:
  "\<exists>r. HttpRequest_parse ref_httparse id (as_bytes (render_request (lit ''GET'') (lit ''/a'') 1
        [(lit ''Host'', lit ''b''), (lit ''hOST'', lit ''c'')]) @ [1, 2]) = Ok r \<and>
    req_method r = lit ''GET'' \<and> req_path r = lit ''/a'' \<and> req_body r = [1, 2] \<and>
    get_header id r (lit ''HosT'') = Some (lit ''c'')"
proof -
  let ?hs = "[(lit ''Host'', lit ''b''), (lit ''hOST'', lit ''c'')]"
  have ok: "request_ok (lit ''GET'') (lit ''/a'') 1 ?hs"
    by (simp add: request_ok_def is_token_def is_target_def is_value_def tchar_def target_char_def alnum_def lit_def)
  have name: "list_all (\<lambda>c. c < 128) (lit ''HosT'')"
    "map_of (rev (map (\<lambda>(n, v). (map ascii_lower n, v)) ?hs)) (map ascii_lower (lit ''HosT'')) = Some (lit ''c'')"
    by (simp_all add: lit_def ascii_lower_def)
  from request_roundtrip [OF ref_httparse_law ok, where uni = id and body = "[1, 2]"] name show ?thesis
    by (auto split: res.splits)
qed

end
