(* ===== verification/Syscalls.thy ===== *)
theory Syscalls
  imports Rust_Str
begin

text \<open>
  The operating system as the program sees it.  Every \<open>libc\<close> (and file-system) call is a constructor
  of \<open>syscall\<close>; the kernel is a parameter, a function from the call and the state of the world to the
  result and the next state.  The machine state carries the trace of calls made with their results,
  so that theorems can speak of what the program asked of the kernel and in which order.
  Programs are state transformers with Rust's \<open>Result\<close>; \<open>io_bind\<close> is the question mark operator.
\<close>

section \<open>Calls, results and the machine\<close>

record sockaddr_in =
  sin_family :: u16
  sin_port :: u16
  sin_addr :: u32

datatype syscall =
    SysSocket nat nat nat
  | SysSetsockopt raw_fd nat nat i32
  | SysBind raw_fd sockaddr_in
  | SysListen raw_fd nat
  | SysAccept raw_fd
  | SysEpollCreate nat
  | SysEpollAdd raw_fd raw_fd u32 u64
  | SysEpollMod raw_fd raw_fd u32 u64
  | SysEpollDel raw_fd raw_fd
  | SysEpollWait raw_fd i32 i32
  | SysRead raw_fd u64
  | SysWrite raw_fd "byte list"
  | SysClose raw_fd
  | SysStat rstr
  | SysOpen rstr
  | SysFstat raw_fd
  | SysMmap raw_fd u64
  | SysMunmap u64 u64
  | SysSendfile raw_fd raw_fd "i64 option" u64
  | SysSplice raw_fd "i64 option" raw_fd "i64 option" u64 u32
  | SysVmsplice raw_fd "byte list list" u32

text \<open>
  A result: the C \<open>int\<close> and \<open>ssize_t\<close> return values (a call uses one of them), the bytes and the
  epoll events the call wrote to the caller's memory.
\<close>

record sysret =
  ret32 :: i32
  ret64 :: i64
  out_bytes :: "byte list"
  out_events :: "(u32 \<times> u64) list"

type_synonym 'w kernel = "syscall \<Rightarrow> 'w \<Rightarrow> sysret \<times> 'w"
type_synonym systrace = "(syscall \<times> sysret) list"

record 'w os =
  world :: 'w
  trace :: systrace

definition do_call :: "'w kernel \<Rightarrow> syscall \<Rightarrow> 'w os \<Rightarrow> sysret \<times> 'w os" where
  "do_call k c m =
    (let (r, w) = k c (world m) in (r, m\<lparr>world := w, trace := trace m @ [(c, r)]\<rparr>))"

text \<open>What a call writes into a buffer of the caller: a prefix of it, never past its end.\<close>

definition overlay :: "'a list \<Rightarrow> 'a list \<Rightarrow> 'a list" where
  "overlay new old = take (length old) (new @ drop (length new) old)"

lemma length_overlay [simp]: "length (overlay new old) = length old"
  by (simp add: overlay_def)

lemma take_overlay: "n \<le> length new \<Longrightarrow> n \<le> length old \<Longrightarrow> take n (overlay new old) = take n new"
  by (simp add: overlay_def min_def)

lemma do_call_trace: "do_call k c m = (r, m') \<Longrightarrow> trace m' = trace m @ [(c, r)]"
  by (auto simp: do_call_def split: prod.splits)

lemma do_call_obtain:
  obtains r m' where "do_call k c m = (r, m')" "trace m' = trace m @ [(c, r)]"
  by (metis do_call_trace prod.collapse)

text \<open>The descriptors closed in a trace, in order.\<close>

fun closed_fds :: "systrace \<Rightarrow> raw_fd list" where
  "closed_fds [] = []"
| "closed_fds ((SysClose fd, r) # t) = fd # closed_fds t"
| "closed_fds (_ # t) = closed_fds t"

lemma closed_fds_append [simp]: "closed_fds (s @ t) = closed_fds s @ closed_fds t"
  by (induction s rule: closed_fds.induct) simp_all

text \<open>
  A kernel whose world is the list of answers it will give, one per call: the instance at which the
  theorems about kernels are exercised.
\<close>

definition ret_int :: "i32 \<Rightarrow> sysret" where
  "ret_int n = \<lparr>ret32 = n, ret64 = scast n, out_bytes = [], out_events = []\<rparr>"

fun script :: "sysret list kernel" where
  "script c [] = (ret_int (-1), [])"
| "script c (r # rs) = (r, rs)"

lemma ret_int_sel [simp]:
  "ret32 (ret_int n) = n" "ret64 (ret_int n) = scast n" "out_bytes (ret_int n) = []"
  "out_events (ret_int n) = []"
  by (simp_all add: ret_int_def)

lemma do_call_script [simp]:
  "do_call script c \<lparr>world = r # rs, trace = tr\<rparr> = (r, \<lparr>world = rs, trace = tr @ [(c, r)]\<rparr>)"
  by (simp add: do_call_def)

section \<open>Programs with results\<close>

type_synonym ('s, 'a) io = "'s \<Rightarrow> 'a res \<times> 's"

definition io_return :: "'a \<Rightarrow> ('s, 'a) io" where
  "io_return x s = (Ok x, s)"

definition io_res :: "'a res \<Rightarrow> ('s, 'a) io" where
  "io_res r s = (r, s)"

definition io_bind :: "('s, 'a) io \<Rightarrow> ('a \<Rightarrow> ('s, 'b) io) \<Rightarrow> ('s, 'b) io" where
  "io_bind f g s =
    (case f s of
       (Ok x, s') \<Rightarrow> g x s'
     | (Err e, s') \<Rightarrow> (Err e, s')
     | (Panic, s') \<Rightarrow> (Panic, s'))"

lemma io_bind_simps [simp]:
  "f s = (Ok x, s') \<Longrightarrow> io_bind f g s = g x s'"
  "f s = (Err e, s') \<Longrightarrow> io_bind f g s = (Err e, s')"
  "f s = (Panic, s') \<Longrightarrow> io_bind f g s = (Panic, s')"
  by (simp_all add: io_bind_def)

lemma io_bind_Ok_iff:
  "io_bind f g s = (Ok y, t) \<longleftrightarrow> (\<exists>x s'. f s = (Ok x, s') \<and> g x s' = (Ok y, t))"
  by (auto simp: io_bind_def split: prod.splits res.splits)

section \<open>Relations that programs respect\<close>

text \<open>
  A program keeps a relation when it takes every state to a related one, whatever its result.
  For a reflexive and transitive relation this composes; the locale collects the rules.  An
  invariant \<open>I\<close> is the relation \<open>I s \<longrightarrow> I s'\<close>.
\<close>

definition keeps :: "('s \<Rightarrow> 's \<Rightarrow> bool) \<Rightarrow> ('s, 'a) io \<Rightarrow> bool" where
  "keeps R f \<longleftrightarrow> (\<forall>s. R s (snd (f s)))"

definition preserved :: "('s \<Rightarrow> bool) \<Rightarrow> 's \<Rightarrow> 's \<Rightarrow> bool" where
  "preserved I s s' \<longleftrightarrow> (I s \<longrightarrow> I s')"

lemma keepsD: "keeps R f \<Longrightarrow> f s = (r, s') \<Longrightarrow> R s s'"
  by (metis keeps_def snd_conv)

lemma keeps_preserved: "keeps (preserved I) f \<Longrightarrow> I s \<Longrightarrow> I (snd (f s))"
  by (simp add: keeps_def preserved_def)

lemma keepsI: "(\<And>s r s'. f s = (r, s') \<Longrightarrow> R s s') \<Longrightarrow> keeps R f"
  unfolding keeps_def by (metis prod.collapse)

locale io_rel =
  fixes R :: "'s \<Rightarrow> 's \<Rightarrow> bool"
  assumes refl: "R s s"
    and trans: "R s t \<Longrightarrow> R t u \<Longrightarrow> R s u"
begin

lemma keeps_return: "keeps R (io_return x)"
  by (simp add: keeps_def io_return_def refl)

lemma keeps_res: "keeps R (io_res r)"
  by (simp add: keeps_def io_res_def refl)

lemma keeps_bind:
  assumes f: "keeps R f" and g: "\<And>x. keeps R (g x)"
  shows "keeps R (io_bind f g)"
proof (rule keepsI)
  fix s r s'
  assume run: "io_bind f g s = (r, s')"
  obtain a t where t: "f s = (a, t)" by fastforce
  have "R s t" using f t by (rule keepsD)
  moreover have "R t s'"
  proof (cases a)
    case (Ok x)
    with run t show ?thesis by (simp add: keepsD [OF g])
  qed (use run t refl in auto)
  ultimately show "R s s'" by (rule trans)
qed

lemma keeps_fold:
  assumes "\<And>x. keeps R (f x)"
  shows "R s (fold (\<lambda>x s. snd (f x s)) xs s)"
proof (induction xs arbitrary: s)
  case (Cons x xs)
  have "R s (snd (f x s))" using assms by (simp add: keeps_def)
  then show ?case using Cons trans by fastforce
qed (simp add: refl)

end

text \<open>
  Two instances every component uses: an invariant is kept, and the trace of calls only grows.
\<close>

interpretation inv: io_rel "preserved I" for I :: "'s \<Rightarrow> bool"
  by unfold_locales (auto simp: preserved_def)

definition trace_grows :: "('s \<Rightarrow> systrace) \<Rightarrow> 's \<Rightarrow> 's \<Rightarrow> bool" where
  "trace_grows tr s s' \<longleftrightarrow> (\<exists>new. tr s' = tr s @ new)"

interpretation tg: io_rel "trace_grows tr" for tr :: "'s \<Rightarrow> systrace"
proof
  show "trace_grows tr s s" for s
    by (simp add: trace_grows_def)
  show "trace_grows tr s u" if "trace_grows tr s t" "trace_grows tr t u" for s t u
    using that by (auto simp: trace_grows_def)
qed

end
