(* ===== verification/Epoll.thy ===== *)
theory Epoll
  imports Syscalls Hash_Map
begin

text \<open>
  \<open>src/net/epoll.rs\<close>: the epoll backend, its table of connections and every operation, each one
  system call with its error path.  The main invariant ties the table to the trace of system calls:
  its keys are the descriptors whose addition the kernel accepted and that were not deleted since.
\<close>

section \<open>State\<close>

record connection_state =
  read_buffer :: "byte list"
  write_buffer :: "byte list"
  bytes_read :: u64
  bytes_written :: u64

record epoll_backend =
  epoll_fd :: raw_fd
  ep_events :: "(u32 \<times> u64) list"
  max_events :: u64
  connections :: "(raw_fd, connection_state) hmap"

type_synonym 'w ep_os = "epoll_backend \<times> 'w os"

definition new_connection :: connection_state where
  "new_connection =
    \<lparr>read_buffer = [], write_buffer = [], bytes_read = 0, bytes_written = 0\<rparr>"

section \<open>Operations\<close>

definition EPOLL_CLOEXEC :: nat where
  "EPOLL_CLOEXEC = 524288"

definition EpollBackend_new :: "'w kernel \<Rightarrow> u64 \<Rightarrow> 'w os \<Rightarrow> epoll_backend res \<times> 'w os" where
  "EpollBackend_new k maxev m =
    (let (r, m') = do_call k (SysEpollCreate EPOLL_CLOEXEC) m in
     if ret32 r <s 0 then (Err EpollCreateFailed, m')
     else (Ok \<lparr>epoll_fd = ret32 r, ep_events = replicate (unat maxev) (0, 0),
               max_events = maxev, connections = []\<rparr>, m'))"

text \<open>\<open>fd as u64\<close> sign-extends the C \<open>int\<close>, \<open>event.u64 as RawFd\<close> truncates.\<close>

definition fd_to_u64 :: "raw_fd \<Rightarrow> u64" where
  "fd_to_u64 fd = scast fd"

definition u64_to_fd :: "u64 \<Rightarrow> raw_fd" where
  "u64_to_fd d = ucast d"

definition register :: "'w kernel \<Rightarrow> raw_fd \<Rightarrow> u32 \<Rightarrow> ('w ep_os, unit) io" where
  "register k fd events = (\<lambda>(ep, m).
    let (r, m') = do_call k (SysEpollAdd (epoll_fd ep) fd events (fd_to_u64 fd)) m in
    if ret32 r <s 0 then (Err AddFdFailed, (ep, m'))
    else (Ok (), (ep\<lparr>connections := hm_insert fd new_connection (connections ep)\<rparr>, m')))"

definition modify :: "'w kernel \<Rightarrow> raw_fd \<Rightarrow> u32 \<Rightarrow> ('w ep_os, unit) io" where
  "modify k fd events = (\<lambda>(ep, m).
    let (r, m') = do_call k (SysEpollMod (epoll_fd ep) fd events (fd_to_u64 fd)) m in
    if ret32 r <s 0 then (Err ModifyFdFailed, (ep, m'))
    else (Ok (), (ep, m')))"

definition unregister :: "'w kernel \<Rightarrow> raw_fd \<Rightarrow> ('w ep_os, unit) io" where
  "unregister k fd = (\<lambda>(ep, m).
    let (r, m') = do_call k (SysEpollDel (epoll_fd ep) fd) m in
    if ret32 r <s 0 then (Err DeleteFdFailed, (ep, m'))
    else (Ok (), (ep\<lparr>connections := hm_remove fd (connections ep)\<rparr>, m')))"

text \<open>\<open>self.max_events as i32\<close> truncates; \<open>num_events as usize\<close> sign-extends a non-negative value.\<close>

definition wait :: "'w kernel \<Rightarrow> i32 \<Rightarrow> ('w ep_os, u64) io" where
  "wait k timeout_ms = (\<lambda>(ep, m).
    let (r, m') = do_call k (SysEpollWait (epoll_fd ep) (ucast (max_events ep)) timeout_ms) m;
        ep' = ep\<lparr>ep_events := overlay (out_events r) (ep_events ep)\<rparr> in
    if ret32 r <s 0 then (Err EpollWaitFailed, (ep', m'))
    else (Ok (scast (ret32 r)), (ep', m')))"

definition epoll_read :: "'w kernel \<Rightarrow> raw_fd \<Rightarrow> byte list \<Rightarrow> ('w ep_os, u64 \<times> byte list) io" where
  "epoll_read k fd buf = (\<lambda>(ep, m).
    let (r, m') = do_call k (SysRead fd (word_of_nat (length buf))) m in
    if ret64 r <s 0 then (Err ReadFailed, (ep, m'))
    else (Ok (ret64 r, overlay (out_bytes r) buf), (ep, m')))"

definition epoll_write :: "'w kernel \<Rightarrow> raw_fd \<Rightarrow> byte list \<Rightarrow> ('w ep_os, u64) io" where
  "epoll_write k fd buf = (\<lambda>(ep, m).
    let (r, m') = do_call k (SysWrite fd buf) m in
    if ret64 r <s 0 then (Err WriteFailed, (ep, m'))
    else (Ok (ret64 r), (ep, m')))"

definition accept :: "'w kernel \<Rightarrow> raw_fd \<Rightarrow> ('w ep_os, raw_fd) io" where
  "accept k listen_fd = (\<lambda>(ep, m).
    let (r, m') = do_call k (SysAccept listen_fd) m in
    if ret32 r <s 0 then (Err AcceptFailed, (ep, m'))
    else (Ok (ret32 r), (ep, m')))"

definition close_fd :: "'w kernel \<Rightarrow> raw_fd \<Rightarrow> ('w ep_os, unit) io" where
  "close_fd k fd =
    io_bind (unregister k fd) (\<lambda>_ (ep, m).
      let (r, m') = do_call k (SysClose fd) m in
      if ret32 r <s 0 then (Err CloseFailed, (ep, m'))
      else (Ok (), (ep, m')))"

text \<open>The loop \<open>for i in 0..num_events\<close> of \<open>process_events\<close>; indexing past the buffer panics.\<close>

fun collect_events :: "(u32 \<times> u64) list \<Rightarrow> nat list \<Rightarrow> (raw_fd \<times> u32) list \<Rightarrow> (raw_fd \<times> u32) list res"
where
  "collect_events evs [] results = Ok results"
| "collect_events evs (i # is) results =
    (if i < length evs then
       collect_events evs is (results @ [(u64_to_fd (snd (evs ! i)), fst (evs ! i))])
     else Panic)"

definition process_events :: "'w kernel \<Rightarrow> i32 \<Rightarrow> ('w ep_os, (raw_fd \<times> u32) list) io" where
  "process_events k timeout_ms =
    io_bind (wait k timeout_ms) (\<lambda>num_events (ep, m).
      (collect_events (ep_events ep) [0 ..< unat num_events] [], (ep, m)))"

definition get_event_fd :: "epoll_backend \<Rightarrow> nat \<Rightarrow> raw_fd res" where
  "get_event_fd ep idx =
    (if idx < length (ep_events ep) then Ok (u64_to_fd (snd (ep_events ep ! idx))) else Panic)"

definition get_event_flags :: "epoll_backend \<Rightarrow> nat \<Rightarrow> u32 res" where
  "get_event_flags ep idx =
    (if idx < length (ep_events ep) then Ok (fst (ep_events ep ! idx)) else Panic)"

text \<open>
  \<open>Drop\<close>: close every connection of the table, in the map's iteration order and ignoring errors,
  then the epoll descriptor itself.
\<close>

definition EpollBackend_drop ::
    "'w kernel \<Rightarrow> ((raw_fd \<times> connection_state) list \<Rightarrow> (raw_fd \<times> connection_state) list) \<Rightarrow>
     'w ep_os \<Rightarrow> 'w os" where
  "EpollBackend_drop k ord = (\<lambda>(ep, m).
    let fds = map fst (ord (connections ep));
        (ep', m') = fold (\<lambda>fd s. snd (close_fd k fd s)) fds (ep, m)
    in snd (do_call k (SysClose (epoll_fd ep')) m'))"

lemmas epoll_ops =
  register_def modify_def unregister_def wait_def epoll_read_def epoll_write_def accept_def

section \<open>The registration invariant\<close>

text \<open>
  The descriptors an epoll instance watches, read off the trace: a creation that returned the
  instance starts empty, a successful addition adds, a successful deletion removes.
\<close>

fun reg_step :: "raw_fd \<Rightarrow> raw_fd set \<Rightarrow> syscall \<times> sysret \<Rightarrow> raw_fd set" where
  "reg_step epfd S (SysEpollCreate fl, r) = (if ret32 r = epfd then {} else S)"
| "reg_step epfd S (SysEpollAdd e fd ev d, r) =
     (if e = epfd \<and> \<not> ret32 r <s 0 then insert fd S else S)"
| "reg_step epfd S (SysEpollDel e fd, r) =
     (if e = epfd \<and> \<not> ret32 r <s 0 then S - {fd} else S)"
| "reg_step epfd S _ = S"

definition registered :: "raw_fd \<Rightarrow> systrace \<Rightarrow> raw_fd set" where
  "registered epfd tr = foldl (reg_step epfd) {} tr"

definition conn_keys :: "epoll_backend \<Rightarrow> raw_fd set" where
  "conn_keys ep = {fd. hm_get (connections ep) fd \<noteq> None}"

definition ep_sync :: "'w ep_os \<Rightarrow> bool" where
  "ep_sync s \<longleftrightarrow>
    (case s of (ep, m) \<Rightarrow>
       hm_wf (connections ep) \<and> length (ep_events ep) = unat (max_events ep) \<and>
       conn_keys ep = registered (epoll_fd ep) (trace m))"

named_theorems ep_keeps \<open>relations the operations of the backend keep\<close>

lemma registered_snoc: "registered epfd (tr @ [x]) = reg_step epfd (registered epfd tr) x"
  by (simp add: registered_def)

lemma ep_sync_call:
  assumes "do_call k c m = (r, m')" and "ep_sync (ep, m)"
    and "\<And>S. reg_step (epoll_fd ep) S (c, r) = S"
  shows "ep_sync (ep, m')"
  using assms by (simp add: ep_sync_def registered_snoc do_call_trace [OF assms(1)])

lemma conn_keys_insert [simp]:
  "conn_keys (ep\<lparr>connections := hm_insert fd c (connections ep)\<rparr>) = insert fd (conn_keys ep)"
  by (auto simp: conn_keys_def hm.get_insert)

lemma conn_keys_remove [simp]:
  "hm_wf (connections ep) \<Longrightarrow>
    conn_keys (ep\<lparr>connections := hm_remove fd (connections ep)\<rparr>) = conn_keys ep - {fd}"
  by (auto simp: conn_keys_def hm.get_remove)

lemma conn_keys_events [simp]: "conn_keys (ep\<lparr>ep_events := es\<rparr>) = conn_keys ep"
  by (simp add: conn_keys_def)

lemma EpollBackend_new_sync:
  assumes "EpollBackend_new k maxev m = (Ok ep, m')"
  shows "ep_sync (ep, m') \<and> conn_keys ep = {}"
  using assms
  by (auto simp: EpollBackend_new_def Let_def ep_sync_def conn_keys_def registered_snoc
      hm.wf_empty hm.get_empty do_call_trace split: prod.splits if_splits)

lemma register_sync [ep_keeps]: "keeps (preserved ep_sync) (register k fd events)"
  by (rule keepsI)
    (auto simp: register_def preserved_def ep_sync_def Let_def registered_snoc do_call_trace
      hm.wf_insert split: prod.splits if_splits)

lemma unregister_sync [ep_keeps]: "keeps (preserved ep_sync) (unregister k fd)"
  by (rule keepsI)
    (auto simp: unregister_def preserved_def ep_sync_def Let_def registered_snoc do_call_trace
      hm.wf_remove split: prod.splits if_splits)

lemma modify_sync [ep_keeps]: "keeps (preserved ep_sync) (modify k fd events)"
  by (rule keepsI)
    (auto simp: modify_def preserved_def Let_def elim!: ep_sync_call split: prod.splits if_splits)

lemma wait_sync [ep_keeps]: "keeps (preserved ep_sync) (wait k timeout_ms)"
  by (rule keepsI)
    (auto simp: wait_def preserved_def ep_sync_def Let_def registered_snoc do_call_trace
      split: prod.splits if_splits)

lemma epoll_read_sync [ep_keeps]: "keeps (preserved ep_sync) (epoll_read k fd buf)"
  by (rule keepsI)
    (auto simp: epoll_read_def preserved_def Let_def elim!: ep_sync_call
      split: prod.splits if_splits)

lemma epoll_write_sync [ep_keeps]: "keeps (preserved ep_sync) (epoll_write k fd buf)"
  by (rule keepsI)
    (auto simp: epoll_write_def preserved_def Let_def elim!: ep_sync_call
      split: prod.splits if_splits)

lemma accept_sync [ep_keeps]: "keeps (preserved ep_sync) (accept k fd)"
  by (rule keepsI)
    (auto simp: accept_def preserved_def Let_def elim!: ep_sync_call split: prod.splits if_splits)

lemma close_fd_sync [ep_keeps]: "keeps (preserved ep_sync) (close_fd k fd)"
  unfolding close_fd_def
proof (rule inv.keeps_bind)
  show "keeps (preserved ep_sync) (unregister k fd)"
    by (rule ep_keeps)
  show "keeps (preserved ep_sync) (\<lambda>(ep, m). let (r, m') = do_call k (SysClose fd) m in
      if ret32 r <s 0 then (Err CloseFailed, ep, m') else (Ok (), ep, m'))" for x :: unit
    by (rule keepsI)
      (auto simp: preserved_def Let_def elim!: ep_sync_call split: prod.splits if_splits)
qed

lemma process_events_sync [ep_keeps]: "keeps (preserved ep_sync) (process_events k timeout_ms)"
  unfolding process_events_def
  by (rule inv.keeps_bind [OF wait_sync]) (auto intro!: keepsI simp: preserved_def)

section \<open>Runs of backend operations\<close>

datatype ep_op =
    OpRegister raw_fd u32 | OpModify raw_fd u32 | OpUnregister raw_fd | OpWait i32
  | OpRead raw_fd "byte list" | OpWrite raw_fd "byte list" | OpAccept raw_fd | OpClose raw_fd
  | OpProcess i32

fun ep_exec :: "'w kernel \<Rightarrow> ep_op \<Rightarrow> 'w ep_os \<Rightarrow> 'w ep_os" where
  "ep_exec k (OpRegister fd ev) s = snd (register k fd ev s)"
| "ep_exec k (OpModify fd ev) s = snd (modify k fd ev s)"
| "ep_exec k (OpUnregister fd) s = snd (unregister k fd s)"
| "ep_exec k (OpWait t) s = snd (wait k t s)"
| "ep_exec k (OpRead fd buf) s = snd (epoll_read k fd buf s)"
| "ep_exec k (OpWrite fd buf) s = snd (epoll_write k fd buf s)"
| "ep_exec k (OpAccept fd) s = snd (accept k fd s)"
| "ep_exec k (OpClose fd) s = snd (close_fd k fd s)"
| "ep_exec k (OpProcess t) s = snd (process_events k t s)"

lemma ep_exec_sync: "ep_sync s \<Longrightarrow> ep_sync (ep_exec k op s)"
  by (cases op) (simp_all add: keeps_preserved ep_keeps)

text \<open>C6: the connection table is the kernel's interest list.  Whatever sequence of operations is run
  on a fresh backend, and whatever the kernel answers, the keys of the table are exactly the
  descriptors whose addition succeeded and that were not successfully deleted since, the table has
  one entry per key, and the event buffer keeps its size.\<close>

theorem connections_track_kernel:
  assumes "EpollBackend_new k maxev m = (Ok ep, m')"
    and "fold (ep_exec k) ops (ep, m') = (ep1, m1)"
  shows "conn_keys ep1 = registered (epoll_fd ep1) (trace m1) \<and>
    distinct (map fst (connections ep1)) \<and> length (ep_events ep1) = unat (max_events ep1)"
proof -
  have "ep_sync (fold (ep_exec k) ops s)" if "ep_sync s" for s
    using that by (rule fold_invariant [where Q = "\<lambda>_. True", OF TrueI]) (rule ep_exec_sync)
  then have "ep_sync (ep1, m1)"
    using EpollBackend_new_sync [OF assms(1)] assms(2) by (metis)
  then show ?thesis
    by (simp add: ep_sync_def hm_wf_def)
qed

theorem connections_track_kernel_witness:
  "conn_keys \<lparr>epoll_fd = 3, ep_events = [(0, 0)], max_events = 1, connections = [(7, new_connection)]\<rparr> =
     registered 3 [(SysEpollCreate EPOLL_CLOEXEC, ret_int 3), (SysEpollAdd 3 7 1 (fd_to_u64 7), ret_int 0)] \<and>
    distinct (map fst [(7 :: raw_fd, new_connection)]) \<and>
    length (ep_events \<lparr>epoll_fd = 3, ep_events = [(0, 0)], max_events = 1,
      connections = [(7, new_connection)]\<rparr>) = unat (1 :: u64)"
proof -
  let ?ep0 = "\<lparr>epoll_fd = 3, ep_events = [(0, 0)], max_events = 1, connections = []\<rparr>"
  have new: "EpollBackend_new script 1 \<lparr>world = [ret_int 3, ret_int 0], trace = []\<rparr> =
      (Ok ?ep0, \<lparr>world = [ret_int 0], trace = [(SysEpollCreate EPOLL_CLOEXEC, ret_int 3)]\<rparr>)"
    by (simp add: EpollBackend_new_def word_sless_alt)
  have run: "fold (ep_exec script) [OpRegister 7 1]
      (?ep0, \<lparr>world = [ret_int 0], trace = [(SysEpollCreate EPOLL_CLOEXEC, ret_int 3)]\<rparr>) =
      (?ep0\<lparr>connections := [(7, new_connection)]\<rparr>, \<lparr>world = [],
        trace = [(SysEpollCreate EPOLL_CLOEXEC, ret_int 3),
                 (SysEpollAdd 3 7 1 (fd_to_u64 7), ret_int 0)]\<rparr>)"
    by (simp add: register_def word_sless_alt hm_insert_def)
  show ?thesis
    using connections_track_kernel [OF new run] by simp
qed

section \<open>Events and descriptors\<close>

text \<open>A descriptor survives the trip through the 64-bit event payload.\<close>

lemma u64_to_fd_to_u64 [simp]: "u64_to_fd (fd_to_u64 fd) = fd"
  unfolding u64_to_fd_def fd_to_u64_def
  by (rule bit_word_eqI) (auto simp: bit_simps)

lemma collect_events_Ok:
  "\<forall>i \<in> set is. i < length evs \<Longrightarrow>
    collect_events evs is acc = Ok (acc @ map (\<lambda>i. (u64_to_fd (snd (evs ! i)), fst (evs ! i))) is)"
  by (induction "is" arbitrary: acc) auto

lemma collect_events_prefix:
  "n \<le> length evs \<Longrightarrow>
    collect_events evs [0 ..< n] [] = Ok (map (\<lambda>(fl, d). (u64_to_fd d, fl)) (take n evs))"
  by (simp add: collect_events_Ok)
    (auto intro!: nth_equalityI simp: split_beta)

text \<open>C31: events are dispatched to the right descriptors.  When the kernel reports as many events as it
  wrote, all inside the buffer it was given, \<open>process_events\<close> does not panic and returns exactly
  them, in order, and an event whose payload was made from a descriptor by \<open>register\<close> comes back
  with that descriptor, negative ones included.\<close>

theorem process_events_faithful:
  assumes "do_call k (SysEpollWait (epoll_fd ep) (ucast (max_events ep)) t) m = (r, m')"
    and "\<not> ret32 r <s 0" and "unat (ret32 r) = length (out_events r)"
    and "length (out_events r) \<le> length (ep_events ep)"
    and "out_events r = map (\<lambda>(fd, fl). (fl, fd_to_u64 fd)) evs"
  shows "fst (process_events k t (ep, m)) = Ok evs"
proof -
  have "unat (scast (ret32 r) :: u64) = unat (ret32 r)"
    using assms(2) by (rule unat_scast_nonneg)
  then have "fst (process_events k t (ep, m)) =
      collect_events (overlay (out_events r) (ep_events ep)) [0 ..< length (out_events r)] []"
    using assms by (simp add: process_events_def wait_def io_bind_def)
  also have "\<dots> = Ok (map (\<lambda>(fl, d). (u64_to_fd d, fl))
      (take (length (out_events r)) (overlay (out_events r) (ep_events ep))))"
    using assms(4) by (simp add: collect_events_prefix)
  also have "take (length (out_events r)) (overlay (out_events r) (ep_events ep)) = out_events r"
    using assms(4) by (simp add: take_overlay)
  finally show ?thesis
    using assms(5) by (simp add: comp_def split_beta)
qed

theorem process_events_faithful_witness:
  "fst (process_events script 100
     (\<lparr>epoll_fd = 3, ep_events = [(0, 0), (0, 0)], max_events = 2, connections = []\<rparr>,
      \<lparr>world = [(ret_int 1)\<lparr>out_events := [(1, fd_to_u64 (-7))]\<rparr>], trace = []\<rparr>)) = Ok [(- 7, 1)]"
  by (rule process_events_faithful [where r = "(ret_int 1)\<lparr>out_events := [(1, fd_to_u64 (-7))]\<rparr>"])
    (simp_all add: word_sless_alt)

section \<open>Closing\<close>

text \<open>What a trace says about closing: descriptors whose deletion was asked and
  accepted; and the connections accepted.\<close>

fun del_asked :: "systrace \<Rightarrow> raw_fd list" where
  "del_asked [] = []"
| "del_asked ((SysEpollDel e fd, r) # t) = fd # del_asked t"
| "del_asked (_ # t) = del_asked t"

fun del_done :: "systrace \<Rightarrow> raw_fd list" where
  "del_done [] = []"
| "del_done ((SysEpollDel e fd, r) # t) =
     (if ret32 r <s 0 then del_done t else fd # del_done t)"
| "del_done (_ # t) = del_done t"

fun accepted_fds :: "systrace \<Rightarrow> raw_fd list" where
  "accepted_fds [] = []"
| "accepted_fds ((SysAccept l, r) # t) =
     (if ret32 r <s 0 then accepted_fds t else ret32 r # accepted_fds t)"
| "accepted_fds (_ # t) = accepted_fds t"

lemma accepted_fds_append [simp]: "accepted_fds (s @ t) = accepted_fds s @ accepted_fds t"
  by (induction s rule: accepted_fds.induct) simp_all

lemma del_asked_append [simp]: "del_asked (s @ t) = del_asked s @ del_asked t"
  by (induction s rule: del_asked.induct) simp_all

lemma del_done_append [simp]: "del_done (s @ t) = del_done s @ del_done t"
  by (induction s rule: del_done.induct) simp_all

lemma close_fd_cases:
  assumes "close_fd k fd (ep, m) = (res, (ep', m'))"
  obtains (not_deleted) r where "ret32 r <s 0" "res = Err DeleteFdFailed" "ep' = ep"
      "trace m' = trace m @ [(SysEpollDel (epoll_fd ep) fd, r)]"
  | (closed) r r' where "\<not> ret32 r <s 0"
      "res = (if ret32 r' <s 0 then Err CloseFailed else Ok ())"
      "ep' = ep\<lparr>connections := hm_remove fd (connections ep)\<rparr>"
      "trace m' = trace m @ [(SysEpollDel (epoll_fd ep) fd, r), (SysClose fd, r')]"
proof -
  obtain r m1 where c1: "do_call k (SysEpollDel (epoll_fd ep) fd) m = (r, m1)" by fastforce
  obtain r' m2 where c2: "do_call k (SysClose fd) m1 = (r', m2)" by fastforce
  show thesis
  proof (cases "ret32 r <s 0")
    case True
    with assms c1 not_deleted show ?thesis
      by (auto simp: close_fd_def unregister_def io_bind_def do_call_trace)
  next
    case False
    with assms c1 c2 closed show ?thesis
      by (auto simp: close_fd_def unregister_def io_bind_def do_call_trace split: if_splits)
  qed
qed

lemma close_order_lemma:
  assumes "close_fd k fd (ep, m) = (res, (ep', m'))"
  shows "\<exists>new. trace m' = trace m @ new \<and> del_asked new = [fd] \<and> closed_fds new = del_done new \<and>
    accepted_fds new = []"
  using assms by (cases rule: close_fd_cases) auto

text \<open>Closing order and its error path.  Closing a connection first deletes it from epoll; only
  when that succeeds is the table entry dropped and the descriptor closed, in this order and with
  nothing in between.  When the deletion fails the descriptor stays open and in the table.\<close>

theorem close_order:
  assumes "close_fd k fd (ep, m) = (res, (ep', m'))"
  shows "(\<exists>r. ret32 r <s 0 \<and> res = Err DeleteFdFailed \<and> ep' = ep \<and>
       trace m' = trace m @ [(SysEpollDel (epoll_fd ep) fd, r)]) \<or>
    (\<exists>r r'. \<not> ret32 r <s 0 \<and> res = (if ret32 r' <s 0 then Err CloseFailed else Ok ()) \<and>
       ep' = ep\<lparr>connections := hm_remove fd (connections ep)\<rparr> \<and>
       trace m' = trace m @ [(SysEpollDel (epoll_fd ep) fd, r), (SysClose fd, r')])"
  using assms by (cases rule: close_fd_cases) auto

theorem close_order_witness:
  "(\<exists>r. ret32 r <s 0 \<and> (Err DeleteFdFailed :: unit res) = Err DeleteFdFailed \<and>
       [(SysEpollDel 3 7, ret_int (-1))] = [(SysEpollDel 3 7, r)]) \<or>
    (\<exists>r r'. [(SysEpollDel 3 7, ret_int (-1))] = [(SysEpollDel 3 7, r), (SysClose 7, r')])"
proof -
  let ?ep = "\<lparr>epoll_fd = 3, ep_events = [], max_events = 0, connections = [(7, new_connection)]\<rparr>"
  have "close_fd script 7 (?ep, \<lparr>world = [ret_int (-1)], trace = []\<rparr>) =
      (Err DeleteFdFailed, (?ep, \<lparr>world = [], trace = [(SysEpollDel 3 7, ret_int (-1))]\<rparr>))"
    by (simp add: close_fd_def unregister_def io_bind_def word_sless_alt)
  from close_order [OF this] show ?thesis by fastforce
qed

lemma close_fds_trace:
  "fold (\<lambda>fd s. snd (close_fd k fd s)) fds (ep, m) = (ep', m') \<Longrightarrow>
    epoll_fd ep' = epoll_fd ep \<and>
    (\<exists>new. trace m' = trace m @ new \<and> del_asked new = fds \<and> closed_fds new = del_done new \<and>
       accepted_fds new = [])"
proof (induction fds arbitrary: ep m)
  case (Cons fd fds)
  obtain res ep1 m1 where c: "close_fd k fd (ep, m) = (res, (ep1, m1))"
    by (metis prod.collapse)
  then have "fold (\<lambda>fd s. snd (close_fd k fd s)) fds (ep1, m1) = (ep', m')"
    using Cons.prems by simp
  from Cons.IH [OF this] obtain rest where rest: "trace m' = trace m1 @ rest"
      "del_asked rest = fds" "closed_fds rest = del_done rest" "accepted_fds rest = []"
      "epoll_fd ep' = epoll_fd ep1"
    by auto
  have "epoll_fd ep1 = epoll_fd ep"
    using c by (cases rule: close_fd_cases) auto
  moreover obtain new where "trace m1 = trace m @ new" "del_asked new = [fd]"
      "closed_fds new = del_done new" "accepted_fds new = []"
    using close_order_lemma [OF c] by blast
  ultimately show ?case
    using rest by (intro conjI exI [of _ "new @ rest"]) auto
qed simp

lemma EpollBackend_drop_trace:
  assumes "hash_order ord" and "hm_wf (connections ep)"
  shows "\<exists>new. trace (EpollBackend_drop k ord (ep, m)) = trace m @ new \<and>
    set (del_asked new) = conn_keys ep \<and> distinct (del_asked new) \<and>
    closed_fds new = del_done new @ [epoll_fd ep] \<and> accepted_fds new = []"
proof -
  let ?fds = "map fst (ord (connections ep))"
  obtain ep' m' where f: "fold (\<lambda>fd s. snd (close_fd k fd s)) ?fds (ep, m) = (ep', m')"
    by fastforce
  obtain r m2 where c: "do_call k (SysClose (epoll_fd ep')) m' = (r, m2)" by fastforce
  from close_fds_trace [OF f] obtain new where "epoll_fd ep' = epoll_fd ep"
    "trace m' = trace m @ new" "del_asked new = ?fds" "closed_fds new = del_done new" "accepted_fds new = []"
    by auto
  moreover have "set ?fds = conn_keys ep"
    using hash_order_set [OF assms(1), of "connections ep"] hm_keys_iff [of _ "connections ep"]
    by (auto simp: conn_keys_def)
  moreover have "distinct ?fds"
    using hash_order_wf [OF assms] by (simp add: hm_wf_def)
  ultimately show ?thesis
    using f c do_call_trace [OF c]
    by (intro exI [of _ "new @ [(SysClose (epoll_fd ep'), r)]"])
      (simp add: EpollBackend_drop_def)
qed

text \<open>Dropping the backend leaves no connection behind.  In every iteration order, deletion is
  asked once for each descriptor of the table, each descriptor the kernel let go of is closed, and
  the epoll descriptor is closed last, whatever errors occur on the way.\<close>

theorem drop_closes_all:
  assumes "hash_order ord" and "hm_wf (connections ep)"
  shows "\<exists>new. trace (EpollBackend_drop k ord (ep, m)) = trace m @ new \<and>
    set (del_asked new) = conn_keys ep \<and> distinct (del_asked new) \<and>
    closed_fds new = del_done new @ [epoll_fd ep]"
  using EpollBackend_drop_trace [OF assms, of k m] by blast

theorem drop_closes_all_witness:
  "\<exists>new. trace (EpollBackend_drop script rev
      (\<lparr>epoll_fd = 3, ep_events = [], max_events = 0,
        connections = [(7, new_connection), (8, new_connection)]\<rparr>,
       \<lparr>world = [ret_int 0, ret_int 0, ret_int 0, ret_int 0, ret_int 0], trace = []\<rparr>)) = [] @ new \<and>
    set (del_asked new) = conn_keys \<lparr>epoll_fd = 3, ep_events = [], max_events = 0,
        connections = [(7, new_connection), (8, new_connection)]\<rparr> \<and> distinct (del_asked new) \<and>
    closed_fds new = del_done new @ [3]"
  using drop_closes_all [of rev "\<lparr>epoll_fd = 3, ep_events = [], max_events = 0,
        connections = [(7, new_connection), (8, new_connection)]\<rparr>" script
      "\<lparr>world = [ret_int 0, ret_int 0, ret_int 0, ret_int 0, ret_int 0], trace = []\<rparr>"]
  by (simp add: hash_order_def hm_wf_def)

end
