(* ===== verification/Queue.thy ===== *)
theory Queue
  imports Prelude
begin

text \<open>
  \<open>src/worker/queue.rs\<close>: the lock-free queue, the tasks and the work-stealing queues.  The bounded
  queue of the crossbeam library is a parameter, a record of its operations; what the code relies on
  is the locale \<open>bounded_queue\<close>, interpreted for \<open>LockFreeQueue\<close>.  Shared queues (\<open>Arc\<close>) are indices
  into a heap of queues, so that stealing and aliasing are explicit.
\<close>

section \<open>The bounded queue of the library\<close>

record ('q, 't) array_queue =
  aq_new :: "nat \<Rightarrow> 'q res"
  aq_push :: "'t \<Rightarrow> 'q \<Rightarrow> 't option \<times> 'q"
  aq_pop :: "'q \<Rightarrow> 't option \<times> 'q"
  aq_is_empty :: "'q \<Rightarrow> bool"
  aq_is_full :: "'q \<Rightarrow> bool"
  aq_len :: "'q \<Rightarrow> nat"
  aq_capacity :: "'q \<Rightarrow> nat"

text \<open>
  The documented behaviour of \<open>ArrayQueue\<close>: a queue of fixed positive capacity, first in first out;
  a push to a full queue gives the item back, a pop of an empty one gives nothing.
\<close>

definition new_law :: "('q, 't) array_queue \<Rightarrow> ('q \<Rightarrow> bool) \<Rightarrow> ('q \<Rightarrow> 't list) \<Rightarrow> bool" where
  "new_law aq ok items \<longleftrightarrow>
    aq_new aq 0 = Panic \<and>
    (\<forall>c > 0. \<exists>q. aq_new aq c = Ok q \<and> ok q \<and> items q = [] \<and> aq_capacity aq q = c)"

definition push_law :: "('q, 't) array_queue \<Rightarrow> ('q \<Rightarrow> bool) \<Rightarrow> ('q \<Rightarrow> 't list) \<Rightarrow> bool" where
  "push_law aq ok items \<longleftrightarrow>
    (\<forall>q x r q'. ok q \<longrightarrow> aq_push aq x q = (r, q') \<longrightarrow>
       ok q' \<and> aq_capacity aq q' = aq_capacity aq q \<and>
       (if length (items q) < aq_capacity aq q then r = None \<and> items q' = items q @ [x]
        else r = Some x \<and> items q' = items q))"

definition pop_law :: "('q, 't) array_queue \<Rightarrow> ('q \<Rightarrow> bool) \<Rightarrow> ('q \<Rightarrow> 't list) \<Rightarrow> bool" where
  "pop_law aq ok items \<longleftrightarrow>
    (\<forall>q r q'. ok q \<longrightarrow> aq_pop aq q = (r, q') \<longrightarrow>
       ok q' \<and> aq_capacity aq q' = aq_capacity aq q \<and>
       (case items q of [] \<Rightarrow> r = None \<and> items q' = []
        | x # xs \<Rightarrow> r = Some x \<and> items q' = xs))"

definition query_law :: "('q, 't) array_queue \<Rightarrow> ('q \<Rightarrow> bool) \<Rightarrow> ('q \<Rightarrow> 't list) \<Rightarrow> bool" where
  "query_law aq ok items \<longleftrightarrow>
    (\<forall>q. ok q \<longrightarrow>
       length (items q) \<le> aq_capacity aq q \<and> aq_len aq q = length (items q) \<and>
       (aq_is_empty aq q \<longleftrightarrow> items q = []) \<and>
       (aq_is_full aq q \<longleftrightarrow> length (items q) = aq_capacity aq q))"

definition array_queue_laws ::
    "('q, 't) array_queue \<Rightarrow> ('q \<Rightarrow> bool) \<Rightarrow> ('q \<Rightarrow> 't list) \<Rightarrow> bool" where
  "array_queue_laws aq ok items \<longleftrightarrow>
    new_law aq ok items \<and> push_law aq ok items \<and> pop_law aq ok items \<and> query_law aq ok items"

lemma aq_push_law:
  assumes "array_queue_laws aq ok items" and "ok q" and "aq_push aq x q = (r, q')"
  shows "ok q' \<and> aq_capacity aq q' = aq_capacity aq q \<and>
    (if length (items q) < aq_capacity aq q then r = None \<and> items q' = items q @ [x]
     else r = Some x \<and> items q' = items q)"
  using assms unfolding array_queue_laws_def push_law_def by blast

lemma aq_pop_law:
  assumes "array_queue_laws aq ok items" and "ok q" and "aq_pop aq q = (r, q')"
  shows "ok q' \<and> aq_capacity aq q' = aq_capacity aq q \<and>
    (case items q of [] \<Rightarrow> r = None \<and> items q' = [] | x # xs \<Rightarrow> r = Some x \<and> items q' = xs)"
  using assms unfolding array_queue_laws_def pop_law_def by blast

section \<open>Bounded queues as an interface\<close>

locale bounded_queue =
  fixes push :: "'t \<Rightarrow> 'q \<Rightarrow> 't option \<times> 'q"
    and pop :: "'q \<Rightarrow> 't option \<times> 'q"
    and len :: "'q \<Rightarrow> nat"
    and cap :: "'q \<Rightarrow> nat"
    and items :: "'q \<Rightarrow> 't list"
    and ok :: "'q \<Rightarrow> bool"
  assumes ok_push: "ok q \<Longrightarrow> ok (snd (push x q))"
    and ok_pop: "ok q \<Longrightarrow> ok (snd (pop q))"
    and cap_push: "ok q \<Longrightarrow> cap (snd (push x q)) = cap q"
    and cap_pop: "ok q \<Longrightarrow> cap (snd (pop q)) = cap q"
    and push_spec: "ok q \<Longrightarrow> push x q = (r, q') \<Longrightarrow>
      (if length (items q) < cap q then r = None \<and> items q' = items q @ [x]
       else r = Some x \<and> items q' = items q)"
    and pop_spec: "ok q \<Longrightarrow> pop q = (r, q') \<Longrightarrow>
      (case items q of [] \<Rightarrow> r = None \<and> items q' = [] | x # xs \<Rightarrow> r = Some x \<and> items q' = xs)"
    and bound: "ok q \<Longrightarrow> length (items q) \<le> cap q"
    and len_spec: "ok q \<Longrightarrow> len q = length (items q)"
begin

text \<open>Nothing is lost or made up: a rejected push and a failed pop change nothing.\<close>

lemma push_mset:
  "ok q \<Longrightarrow> push x q = (r, q') \<Longrightarrow>
    mset (items q') + mset (case r of None \<Rightarrow> [] | Some y \<Rightarrow> [y]) = mset (items q) + {#x#}"
  using push_spec [of q x r q'] by (auto split: if_splits)

lemma pop_mset:
  "ok q \<Longrightarrow> pop q = (r, q') \<Longrightarrow>
    mset (items q) = mset (items q') + mset (case r of None \<Rightarrow> [] | Some y \<Rightarrow> [y])"
  using pop_spec [of q r q'] by (auto split: list.splits)

lemma pop_None_iff: "ok q \<Longrightarrow> fst (pop q) = None \<longleftrightarrow> items q = []"
  using pop_spec [of q "fst (pop q)" "snd (pop q)"] by (auto split: list.splits)

lemma push_rejected_iff: "ok q \<Longrightarrow> fst (push x q) \<noteq> None \<longleftrightarrow> length (items q) = cap q"
  using push_spec [of q x "fst (push x q)" "snd (push x q)"] bound [of q]
  by (auto split: if_splits)

text \<open>First in, first out: pushes that fit come out in their order, behind what was there.\<close>

lemma pushes_then_pops:
  assumes "ok q" and "length (items q) + length xs \<le> cap q"
  shows "ok (fold (\<lambda>x q. snd (push x q)) xs q) \<and>
    items (fold (\<lambda>x q. snd (push x q)) xs q) = items q @ xs"
  using assms
proof (induction xs arbitrary: q)
  case (Cons x xs)
  have room: "length (items q) < cap q" using Cons.prems by simp
  obtain r q' where p: "push x q = (r, q')" by fastforce
  have "items q' = items q @ [x]" and "ok q'" and "cap q' = cap q"
    using push_spec [OF Cons.prems(1) p] room ok_push [OF Cons.prems(1), of x]
      cap_push [OF Cons.prems(1), of x] p by simp_all
  then show ?case using Cons p by simp
qed simp

end

section \<open>\<open>LockFreeQueue\<close>\<close>

text \<open>
  A handle is an \<open>Arc\<close>: the index of its queue in the heap.  Every operation forwards to the
  library's queue at that index; \<open>clone\<close> copies the handle only.
\<close>

record lock_free_queue =
  lfq_ref :: nat

definition LockFreeQueue_new ::
    "('q, 't) array_queue \<Rightarrow> nat \<Rightarrow> 'q list \<Rightarrow> lock_free_queue res \<times> 'q list" where
  "LockFreeQueue_new aq capacity heap =
    (case aq_new aq capacity of
       Ok q \<Rightarrow> (Ok \<lparr>lfq_ref = length heap\<rparr>, heap @ [q])
     | Err e \<Rightarrow> (Err e, heap)
     | Panic \<Rightarrow> (Panic, heap))"

definition lfq_push ::
    "('q, 't) array_queue \<Rightarrow> lock_free_queue \<Rightarrow> 't \<Rightarrow> 'q list \<Rightarrow> 't option \<times> 'q list" where
  "lfq_push aq q item heap =
    (let (r, a) = aq_push aq item (heap ! lfq_ref q) in (r, heap[lfq_ref q := a]))"

definition lfq_pop ::
    "('q, 't) array_queue \<Rightarrow> lock_free_queue \<Rightarrow> 'q list \<Rightarrow> 't option \<times> 'q list" where
  "lfq_pop aq q heap =
    (let (r, a) = aq_pop aq (heap ! lfq_ref q) in (r, heap[lfq_ref q := a]))"

definition lfq_is_empty :: "('q, 't) array_queue \<Rightarrow> lock_free_queue \<Rightarrow> 'q list \<Rightarrow> bool" where
  "lfq_is_empty aq q heap = aq_is_empty aq (heap ! lfq_ref q)"

definition lfq_is_full :: "('q, 't) array_queue \<Rightarrow> lock_free_queue \<Rightarrow> 'q list \<Rightarrow> bool" where
  "lfq_is_full aq q heap = aq_is_full aq (heap ! lfq_ref q)"

definition lfq_len :: "('q, 't) array_queue \<Rightarrow> lock_free_queue \<Rightarrow> 'q list \<Rightarrow> nat" where
  "lfq_len aq q heap = aq_len aq (heap ! lfq_ref q)"

definition lfq_capacity :: "('q, 't) array_queue \<Rightarrow> lock_free_queue \<Rightarrow> 'q list \<Rightarrow> nat" where
  "lfq_capacity aq q heap = aq_capacity aq (heap ! lfq_ref q)"

definition lfq_clone :: "lock_free_queue \<Rightarrow> lock_free_queue" where
  "lfq_clone q = \<lparr>lfq_ref = lfq_ref q\<rparr>"

text \<open>The heap is sound when the library's laws hold and every queue in it is in order.\<close>

definition heap_ok ::
    "('q, 't) array_queue \<Rightarrow> ('q \<Rightarrow> bool) \<Rightarrow> ('q \<Rightarrow> 't list) \<Rightarrow> 'q list \<Rightarrow> bool" where
  "heap_ok aq ok items heap \<longleftrightarrow> array_queue_laws aq ok items \<and> (\<forall>q \<in> set heap. ok q)"

interpretation lq: bounded_queue "lfq_push aq h" "lfq_pop aq h" "lfq_len aq h" "lfq_capacity aq h"
    "\<lambda>heap. items (heap ! lfq_ref h)"
    "\<lambda>heap. heap_ok aq ok items heap \<and> lfq_ref h < length heap"
  for aq :: "('q, 't) array_queue" and h and ok and items
proof
  fix x r and q q' :: "'q list"
  assume q: "heap_ok aq ok items q \<and> lfq_ref h < length q"
  then have laws: "array_queue_laws aq ok items" and okq: "ok (q ! lfq_ref h)"
    by (auto simp: heap_ok_def)
  obtain r1 a where push: "aq_push aq x (q ! lfq_ref h) = (r1, a)" by fastforce
  obtain r2 b where pop: "aq_pop aq (q ! lfq_ref h) = (r2, b)" by fastforce
  note a = aq_push_law [OF laws okq push] and b = aq_pop_law [OF laws okq pop]
  show "heap_ok aq ok items (snd (lfq_push aq h x q)) \<and> lfq_ref h < length (snd (lfq_push aq h x q))"
    using q push a set_update_subset_insert by (fastforce simp: lfq_push_def heap_ok_def)
  show "heap_ok aq ok items (snd (lfq_pop aq h q)) \<and> lfq_ref h < length (snd (lfq_pop aq h q))"
    using q pop b set_update_subset_insert by (fastforce simp: lfq_pop_def heap_ok_def)
  show "lfq_capacity aq h (snd (lfq_push aq h x q)) = lfq_capacity aq h q"
    using q push a by (simp add: lfq_push_def lfq_capacity_def)
  show "lfq_capacity aq h (snd (lfq_pop aq h q)) = lfq_capacity aq h q"
    using q pop b by (simp add: lfq_pop_def lfq_capacity_def)
  show "if length (items (q ! lfq_ref h)) < lfq_capacity aq h q
      then r = None \<and> items (q' ! lfq_ref h) = items (q ! lfq_ref h) @ [x]
      else r = Some x \<and> items (q' ! lfq_ref h) = items (q ! lfq_ref h)"
    if "lfq_push aq h x q = (r, q')"
    using that q push a by (auto simp: lfq_push_def lfq_capacity_def)
  show "case items (q ! lfq_ref h) of [] \<Rightarrow> r = None \<and> items (q' ! lfq_ref h) = []
      | x # xs \<Rightarrow> r = Some x \<and> items (q' ! lfq_ref h) = xs"
    if "lfq_pop aq h q = (r, q')"
    using that q pop b by (auto simp: lfq_pop_def split: list.splits)
  show "length (items (q ! lfq_ref h)) \<le> lfq_capacity aq h q"
    and "lfq_len aq h q = length (items (q ! lfq_ref h))"
    using laws okq by (auto simp: lfq_capacity_def lfq_len_def array_queue_laws_def query_law_def)
qed

section \<open>A reference instance\<close>

text \<open>The plain list queue with a capacity, at which the theorems about queues are exercised.\<close>

definition list_queue :: "(nat \<times> 't list, 't) array_queue" where
  "list_queue =
    \<lparr>aq_new = (\<lambda>c. if c = 0 then Panic else Ok (c, [])),
     aq_push = (\<lambda>x (c, xs). if length xs < c then (None, (c, xs @ [x])) else (Some x, (c, xs))),
     aq_pop = (\<lambda>(c, xs). case xs of [] \<Rightarrow> (None, (c, [])) | y # ys \<Rightarrow> (Some y, (c, ys))),
     aq_is_empty = (\<lambda>(c, xs). xs = []),
     aq_is_full = (\<lambda>(c, xs). length xs = c),
     aq_len = (\<lambda>(c, xs). length xs),
     aq_capacity = fst\<rparr>"

definition list_queue_ok :: "nat \<times> 't list \<Rightarrow> bool" where
  "list_queue_ok q \<longleftrightarrow> length (snd q) \<le> fst q"

lemma list_queue_laws: "array_queue_laws list_queue list_queue_ok snd"
  by (auto simp: array_queue_laws_def new_law_def push_law_def pop_law_def query_law_def
      list_queue_def list_queue_ok_def split: if_splits list.splits)

section \<open>Tasks and work-stealing queues\<close>

datatype task =
    NewConnection i32
  | ProcessRequest i32 "byte list"
  | SendResponse i32 "byte list"
  | CloseConnection i32
  | Shutdown

record work_stealing_queue =
  local_queue :: lock_free_queue
  shared_queues :: "lock_free_queue list"

fun alloc_queues ::
    "('q, 't) array_queue \<Rightarrow> nat \<Rightarrow> nat \<Rightarrow> 'q list \<Rightarrow> lock_free_queue list res \<times> 'q list" where
  "alloc_queues aq 0 capacity heap = (Ok [], heap)"
| "alloc_queues aq (Suc n) capacity heap =
    (case LockFreeQueue_new aq capacity heap of
       (Ok q, heap') \<Rightarrow>
         (case alloc_queues aq n capacity heap' of
            (Ok qs, heap'') \<Rightarrow> (Ok (q # qs), heap'')
          | r \<Rightarrow> r)
     | (Err e, heap') \<Rightarrow> (Err e, heap')
     | (Panic, heap') \<Rightarrow> (Panic, heap'))"

definition WorkStealingQueue_new ::
    "('q, 't) array_queue \<Rightarrow> nat \<Rightarrow> nat \<Rightarrow> 'q list \<Rightarrow> work_stealing_queue list res \<times> 'q list" where
  "WorkStealingQueue_new aq num_workers capacity heap =
    (case alloc_queues aq num_workers capacity heap of
       (Ok all, heap') \<Rightarrow>
         (Ok (map (\<lambda>i.
            \<lparr>local_queue = lfq_clone (all ! i),
             shared_queues =
               map (\<lambda>j. lfq_clone (all ! j)) (filter (\<lambda>j. i \<noteq> j) [0 ..< length all])\<rparr>)
            [0 ..< num_workers]), heap')
     | (Err e, heap') \<Rightarrow> (Err e, heap')
     | (Panic, heap') \<Rightarrow> (Panic, heap'))"

definition wsq_push ::
    "('q, 't) array_queue \<Rightarrow> work_stealing_queue \<Rightarrow> 't \<Rightarrow> 'q list \<Rightarrow> 't option \<times> 'q list" where
  "wsq_push aq w t heap = lfq_push aq (local_queue w) t heap"

fun steal_loop ::
    "('q, 't) array_queue \<Rightarrow> lock_free_queue list \<Rightarrow> 'q list \<Rightarrow> 't option \<times> 'q list" where
  "steal_loop aq [] heap = (None, heap)"
| "steal_loop aq (q # qs) heap =
    (case lfq_pop aq q heap of
       (Some t, heap') \<Rightarrow> (Some t, heap')
     | (None, heap') \<Rightarrow> steal_loop aq qs heap')"

definition wsq_pop ::
    "('q, 't) array_queue \<Rightarrow> work_stealing_queue \<Rightarrow> 'q list \<Rightarrow> 't option \<times> 'q list" where
  "wsq_pop aq w heap =
    (case lfq_pop aq (local_queue w) heap of
       (Some t, heap') \<Rightarrow> (Some t, heap')
     | (None, heap') \<Rightarrow> steal_loop aq (shared_queues w) heap')"

definition wsq_local :: "work_stealing_queue \<Rightarrow> lock_free_queue" where
  "wsq_local w = local_queue w"

section \<open>The abstract specification of stealing\<close>

text \<open>Take the head of the first non-empty queue in a given order.\<close>

fun take_first :: "nat list \<Rightarrow> 't list list \<Rightarrow> 't option \<times> 't list list" where
  "take_first [] qs = (None, qs)"
| "take_first (i # is) qs =
    (case qs ! i of [] \<Rightarrow> take_first is qs | x # xs \<Rightarrow> (Some x, qs[i := xs]))"

definition wsq_refs :: "work_stealing_queue \<Rightarrow> nat list" where
  "wsq_refs w = lfq_ref (local_queue w) # map lfq_ref (shared_queues w)"

text \<open>The order in which worker \<open>i\<close> of \<open>n\<close> looks at the queues.\<close>

definition steal_order :: "nat \<Rightarrow> nat \<Rightarrow> nat list" where
  "steal_order n i = i # filter (\<lambda>j. i \<noteq> j) [0 ..< n]"

lemma lfq_pop_refines:
  assumes ok: "heap_ok aq ok items heap" and h: "lfq_ref q < length heap"
    and pop: "lfq_pop aq q heap = (r, heap')"
  shows "heap_ok aq ok items heap' \<and> length heap' = length heap \<and>
    (r, map items heap') = take_first [lfq_ref q] (map items heap)"
proof -
  have "heap_ok aq ok items heap'"
    using lq.ok_pop [of aq ok items heap q] ok h pop by simp
  moreover obtain a where heap': "heap' = heap[lfq_ref q := a]"
    using pop by (auto simp: lfq_pop_def split: prod.splits)
  moreover have "case items (heap ! lfq_ref q) of [] \<Rightarrow> r = None \<and> items (heap' ! lfq_ref q) = []
      | x # xs \<Rightarrow> r = Some x \<and> items (heap' ! lfq_ref q) = xs"
    using lq.pop_spec [of aq ok items heap q r heap'] ok h pop by simp
  ultimately show ?thesis
    using h by (auto simp: map_update split: list.splits) (metis list_update_id map_update nth_map)
qed

lemma steal_loop_refines:
  "heap_ok aq ok items heap \<Longrightarrow> \<forall>q \<in> set qs. lfq_ref q < length heap \<Longrightarrow>
    steal_loop aq qs heap = (r, heap') \<Longrightarrow>
    heap_ok aq ok items heap' \<and> length heap' = length heap \<and>
    (r, map items heap') = take_first (map lfq_ref qs) (map items heap)"
proof (induction aq qs heap rule: steal_loop.induct)
  case (2 aq q qs heap)
  obtain r1 heap1 where pop: "lfq_pop aq q heap = (r1, heap1)" by fastforce
  have h: "lfq_ref q < length heap" using "2.prems" by simp
  note ref = lfq_pop_refines [OF "2.prems"(1) h pop]
  show ?case
  proof (cases r1)
    case (Some t)
    then show ?thesis using "2.prems" pop ref by (auto split: list.splits)
  next
    case None
    then have "map items heap1 = map items heap" and "items (heap ! lfq_ref q) = []"
      using ref h by (auto split: list.splits)
    then show ?thesis
      using "2.IH" [OF pop [symmetric] None] "2.prems" pop ref None h by simp
  qed
qed simp

lemma wsq_pop_steal_loop: "wsq_pop aq w heap = steal_loop aq (local_queue w # shared_queues w) heap"
  by (simp add: wsq_pop_def)

lemma wsq_pop_refines:
  "heap_ok aq ok items heap \<Longrightarrow> \<forall>j \<in> set (wsq_refs w). j < length heap \<Longrightarrow>
    wsq_pop aq w heap = (r, heap') \<Longrightarrow>
    heap_ok aq ok items heap' \<and> length heap' = length heap \<and>
    (r, map items heap') = take_first (wsq_refs w) (map items heap)"
  using steal_loop_refines [of aq ok items heap "local_queue w # shared_queues w" r heap']
  by (simp add: wsq_pop_steal_loop wsq_refs_def del: steal_loop.simps take_first.simps)

lemma alloc_queues_spec:
  assumes "array_queue_laws aq ok items" and "0 < capacity"
  shows "\<exists>new. alloc_queues aq n capacity heap =
      (Ok (map (\<lambda>j. \<lparr>lfq_ref = length heap + j\<rparr>) [0 ..< n]), heap @ new) \<and>
    length new = n \<and> (\<forall>q \<in> set new. ok q \<and> items q = [] \<and> aq_capacity aq q = capacity)"
proof (induction n arbitrary: heap)
  case (Suc n)
  obtain q where q: "aq_new aq capacity = Ok q" "ok q" "items q = []" "aq_capacity aq q = capacity"
    using assms by (auto simp: array_queue_laws_def new_law_def)
  from Suc [of "heap @ [q]"] obtain new where new:
    "alloc_queues aq n capacity (heap @ [q]) =
      (Ok (map (\<lambda>j. \<lparr>lfq_ref = length (heap @ [q]) + j\<rparr>) [0 ..< n]), (heap @ [q]) @ new)"
    "length new = n" "\<forall>q \<in> set new. ok q \<and> items q = [] \<and> aq_capacity aq q = capacity"
    by blast
  have "map (\<lambda>j. \<lparr>lfq_ref = length heap + j\<rparr>) [0 ..< Suc n] =
      \<lparr>lfq_ref = length heap\<rparr> # map (\<lambda>j. \<lparr>lfq_ref = length (heap @ [q]) + j\<rparr>) [0 ..< n]"
    by (simp add: upt_conv_Cons map_Suc_upt [symmetric] del: upt_Suc)
  with q new show ?case
    by (intro exI [of _ "q # new"]) (simp add: LockFreeQueue_new_def del: upt_Suc)
qed simp

lemma WorkStealingQueue_new_spec:
  assumes "array_queue_laws aq ok items" and "0 < capacity"
  shows "\<exists>ws heap. WorkStealingQueue_new aq n capacity [] = (Ok ws, heap) \<and>
    length ws = n \<and> length heap = n \<and> heap_ok aq ok items heap \<and>
    (\<forall>q \<in> set heap. items q = [] \<and> aq_capacity aq q = capacity) \<and>
    (\<forall>i < n. wsq_refs (ws ! i) = steal_order n i)"
proof -
  obtain new where new: "alloc_queues aq n capacity [] =
      (Ok (map (\<lambda>j. \<lparr>lfq_ref = j\<rparr>) [0 ..< n]), new)" "length new = n"
      "\<forall>q \<in> set new. ok q \<and> items q = [] \<and> aq_capacity aq q = capacity"
    using alloc_queues_spec [OF assms, of n "[]"] by auto
  have "map (\<lambda>j. lfq_ref (lfq_clone (map (\<lambda>j. \<lparr>lfq_ref = j\<rparr>) [0 ..< n] ! j)))
      (filter (\<lambda>j. i \<noteq> j) [0 ..< n]) = filter (\<lambda>j. i \<noteq> j) [0 ..< n]" for i
    by (rule map_idI) (auto simp: lfq_clone_def)
  with new assms(1) show ?thesis
    by (auto simp: WorkStealingQueue_new_def heap_ok_def wsq_refs_def steal_order_def lfq_clone_def
        comp_def)
qed

lemma set_steal_order: "i < n \<Longrightarrow> set (steal_order n i) = {..< n}"
  by (auto simp: steal_order_def)

lemma take_first_None_iff: "fst (take_first is qs) = None \<longleftrightarrow> (\<forall>i \<in> set is. qs ! i = [])"
  by (induction "is") (auto split: list.splits)

lemma take_first_Some:
  "take_first is qs = (Some x, qs') \<Longrightarrow>
    \<exists>i \<in> set is. \<exists>xs. qs ! i = x # xs \<and> qs' = qs[i := xs]"
  by (induction "is") (auto split: list.splits)

text \<open>The wiring of the work-stealing queues.  Building queues for \<open>n\<close> workers gives each worker one
  fresh empty queue of the asked capacity and, in order, the queues of all the other workers, each
  exactly once and never its own; with capacity 0 the constructor panics as soon as there is a
  worker.\<close>

theorem work_stealing_wiring:
  assumes "array_queue_laws aq ok items"
  shows "(0 < capacity \<longrightarrow>
      (\<exists>ws heap. WorkStealingQueue_new aq n capacity [] = (Ok ws, heap) \<and>
        length ws = n \<and> map items heap = replicate n [] \<and>
        (\<forall>i < n. wsq_refs (ws ! i) = i # filter (\<lambda>j. i \<noteq> j) [0 ..< n] \<and>
           lfq_capacity aq (local_queue (ws ! i)) heap = capacity))) \<and>
    (0 < n \<longrightarrow> fst (WorkStealingQueue_new aq n 0 []) = Panic)"
proof (intro conjI impI)
  assume "0 < capacity"
  from WorkStealingQueue_new_spec [OF assms this, of n] obtain ws heap where w:
    "WorkStealingQueue_new aq n capacity [] = (Ok ws, heap)" "length ws = n" "length heap = n"
    "\<forall>q \<in> set heap. items q = [] \<and> aq_capacity aq q = capacity"
    "\<forall>i < n. wsq_refs (ws ! i) = steal_order n i"
    by blast
  have "map items heap = replicate n []"
    using w(3,4) by (intro nth_equalityI) simp_all
  moreover have "lfq_capacity aq (local_queue (ws ! i)) heap = capacity" if "i < n" for i
  proof -
    have "lfq_ref (local_queue (ws ! i)) = i"
      using w(5) that by (simp add: wsq_refs_def steal_order_def)
    then show ?thesis using w that by (simp add: lfq_capacity_def)
  qed
  ultimately show "\<exists>ws heap. WorkStealingQueue_new aq n capacity [] = (Ok ws, heap) \<and>
      length ws = n \<and> map items heap = replicate n [] \<and>
      (\<forall>i < n. wsq_refs (ws ! i) = i # filter (\<lambda>j. i \<noteq> j) [0 ..< n] \<and>
         lfq_capacity aq (local_queue (ws ! i)) heap = capacity)"
    using w(1,2,5) unfolding steal_order_def by blast
next
  assume "0 < n"
  then show "fst (WorkStealingQueue_new aq n 0 []) = Panic"
    using assms
    by (cases n) (simp_all add: WorkStealingQueue_new_def LockFreeQueue_new_def array_queue_laws_def
        new_law_def)
qed

theorem work_stealing_wiring_witness:
  "\<exists>ws heap. WorkStealingQueue_new (list_queue :: (nat \<times> task list, task) array_queue) 3 10 [] =
      (Ok ws, heap) \<and> length ws = 3 \<and> map snd heap = replicate 3 [] \<and>
    (\<forall>i < 3. wsq_refs (ws ! i) = i # filter (\<lambda>j. i \<noteq> j) [0 ..< 3] \<and>
       lfq_capacity list_queue (local_queue (ws ! i)) heap = 10)"
proof -
  have "array_queue_laws (list_queue :: (nat \<times> task list, task) array_queue) list_queue_ok snd"
    by (rule list_queue_laws)
  from work_stealing_wiring [OF this, of 10 3] show ?thesis
    by (simp only: zero_less_numeral simp_thms)
qed

text \<open>C13: stealing.  On any sound heap of \<open>n\<close> queues, the pop of worker \<open>i\<close> takes the head of its own
  queue if there is one, else the head of the first non-empty queue of the others in index order, and
  changes nothing else; it returns nothing exactly when all \<open>n\<close> queues are empty.\<close>

theorem work_stealing_pop:
  assumes "heap_ok aq ok items heap" and "length heap = n" and "i < n"
    and "wsq_refs w = steal_order n i" and "wsq_pop aq w heap = (r, heap')"
  shows "(r, map items heap') = take_first (i # filter (\<lambda>j. i \<noteq> j) [0 ..< n]) (map items heap) \<and>
    heap_ok aq ok items heap' \<and> length heap' = n \<and>
    (r = None \<longleftrightarrow> (\<forall>q \<in> set heap. items q = []))"
proof -
  have "\<forall>j \<in> set (wsq_refs w). j < length heap"
    using assms(2-4) by (auto simp: set_steal_order)
  from wsq_pop_refines [OF assms(1) this assms(5)] have p: "heap_ok aq ok items heap'"
    "length heap' = length heap" "(r, map items heap') = take_first (steal_order n i) (map items heap)"
    using assms(4) by auto
  from p(3) have "r = None \<longleftrightarrow> (\<forall>j < n. map items heap ! j = [])"
    using take_first_None_iff [of "steal_order n i" "map items heap"] set_steal_order [OF assms(3)]
    by (metis fst_conv lessThan_iff)
  also have "\<dots> \<longleftrightarrow> (\<forall>q \<in> set heap. items q = [])"
    using assms(2) by (auto simp: all_set_conv_all_nth)
  finally show ?thesis
    using p assms(2) by (simp only: steal_order_def simp_thms)
qed

theorem work_stealing_pop_witness:
  "(Some Shutdown, map snd [(10 :: nat, []), (10, []), (10, [])]) =
     take_first (1 # filter (\<lambda>j. 1 \<noteq> j) [0 ..< 3])
       (map snd [(10 :: nat, [Shutdown]), (10, []), (10, [])]) \<and>
   heap_ok list_queue list_queue_ok snd [(10, [] :: task list), (10, []), (10, [])] \<and>
   length [(10 :: nat, [] :: task list), (10, []), (10, [])] = 3 \<and>
   (Some Shutdown = None \<longleftrightarrow> (\<forall>q \<in> set [(10 :: nat, [Shutdown]), (10, []), (10, [])]. snd q = []))"
proof (rule work_stealing_pop)
  let ?w = "\<lparr>local_queue = \<lparr>lfq_ref = 1\<rparr>, shared_queues = [\<lparr>lfq_ref = 0\<rparr>, \<lparr>lfq_ref = 2\<rparr>]\<rparr>"
  show "heap_ok list_queue list_queue_ok snd [(10, [Shutdown]), (10, []), (10, [])]"
    by (simp add: heap_ok_def list_queue_laws list_queue_ok_def)
  show "wsq_refs ?w = steal_order 3 1"
    by (simp add: wsq_refs_def steal_order_def upt_rec)
  show "wsq_pop list_queue ?w [(10, [Shutdown]), (10, []), (10, [])] =
      (Some Shutdown, [(10, []), (10, []), (10, [])])"
    by (simp add: wsq_pop_def lfq_pop_def list_queue_def)
qed simp_all

end
