(* ===== verification/Config.thy ===== *)
theory Config
  imports Rust_Str
begin

text \<open>
  \<open>src/main.rs\<close>: the server's configuration, its defaults, the command line and the choice of the
  network backend.  The number of processors and the features of the build are parameters.
\<close>

datatype server_mode = FastPath | DynamicPath

record server_config =
  host :: rstr
  port :: u16
  num_workers :: u64
  mode :: server_mode
  static_dir :: rstr
  use_io_uring :: bool

text \<open>\<open>available_parallelism().map(|n| n.get()).unwrap_or(4)\<close>\<close>

definition num_cpus :: "u64 option \<Rightarrow> u64" where
  "num_cpus avail = (case avail of Some n \<Rightarrow> n | None \<Rightarrow> 4)"

definition default_config :: "u64 option \<Rightarrow> bool \<Rightarrow> server_config" where
  "default_config avail feature_io_uring =
    \<lparr>host = lit ''0.0.0.0'', port = 8080, num_workers = num_cpus avail, mode = FastPath,
     static_dir = lit ''./static'', use_io_uring = feature_io_uring\<rparr>"

definition parse_u16 :: "rstr \<Rightarrow> u16 option" where
  "parse_u16 s = map_option word_of_nat (parse_uint 10 16 s)"

definition parse_usize :: "rstr \<Rightarrow> u64 option" where
  "parse_usize s = map_option word_of_nat (parse_uint 10 64 s)"

fun unwrap_or :: "'a \<Rightarrow> 'a option \<Rightarrow> 'a" where
  "unwrap_or d None = d"
| "unwrap_or d (Some x) = x"

definition mode_of_arg :: "rstr \<Rightarrow> server_mode" where
  "mode_of_arg s =
    (if s = lit ''fast-path'' then FastPath
     else if s = lit ''dynamic-path'' then DynamicPath
     else FastPath)"

text \<open>The outcome of the command line: a configuration, or the help text and exit status 0.\<close>

datatype args_result = Run server_config | ExitHelp

text \<open>
  The loop over the arguments after the program name.  A flag that takes a value and is the last
  argument is ignored, as is anything unknown.
\<close>

fun parse_loop :: "u64 option \<Rightarrow> server_config \<Rightarrow> rstr list \<Rightarrow> args_result" where
  "parse_loop avail config [] = Run config"
| "parse_loop avail config (a # rest) =
    (if a = lit ''--host'' then
       (case rest of v # rest' \<Rightarrow> parse_loop avail (config\<lparr>host := v\<rparr>) rest'
        | [] \<Rightarrow> Run config)
     else if a = lit ''--port'' then
       (case rest of v # rest' \<Rightarrow>
          parse_loop avail (config\<lparr>port := unwrap_or 8080 (parse_u16 v)\<rparr>) rest'
        | [] \<Rightarrow> Run config)
     else if a = lit ''--workers'' then
       (case rest of v # rest' \<Rightarrow>
          parse_loop avail
            (config\<lparr>num_workers := unwrap_or (num_cpus avail) (parse_usize v)\<rparr>) rest'
        | [] \<Rightarrow> Run config)
     else if a = lit ''--mode'' then
       (case rest of v # rest' \<Rightarrow> parse_loop avail (config\<lparr>mode := mode_of_arg v\<rparr>) rest'
        | [] \<Rightarrow> Run config)
     else if a = lit ''--static-dir'' then
       (case rest of v # rest' \<Rightarrow> parse_loop avail (config\<lparr>static_dir := v\<rparr>) rest'
        | [] \<Rightarrow> Run config)
     else if a = lit ''--no-io-uring'' then
       parse_loop avail (config\<lparr>use_io_uring := False\<rparr>) rest
     else if a = lit ''--help'' \<or> a = lit ''-h'' then ExitHelp
     else parse_loop avail config rest)"

text \<open>\<open>env::args()\<close> starts with the program name; the loop starts at index 1.\<close>

definition parse_args :: "u64 option \<Rightarrow> bool \<Rightarrow> rstr list \<Rightarrow> args_result" where
  "parse_args avail feature_io_uring args =
    parse_loop avail (default_config avail feature_io_uring) (drop 1 args)"

datatype network_backend = IoUring | Epoll_Backend

definition detect_backend :: "bool \<Rightarrow> bool \<Rightarrow> bool \<Rightarrow> network_backend" where
  "detect_backend feature_io_uring available use_uring =
    (if \<not> use_uring then Epoll_Backend
     else if feature_io_uring \<and> available then IoUring
     else Epoll_Backend)"

section \<open>Round trip\<close>

text \<open>The command line that asks for a configuration, for a build with or without io_uring.\<close>

definition mode_arg :: "server_mode \<Rightarrow> rstr" where
  "mode_arg m = (case m of FastPath \<Rightarrow> lit ''fast-path'' | DynamicPath \<Rightarrow> lit ''dynamic-path'')"

definition render_args :: "server_config \<Rightarrow> rstr list" where
  "render_args c =
    [lit ''--host'', host c, lit ''--port'', show_nat (unat (port c)),
     lit ''--workers'', show_nat (unat (num_workers c)), lit ''--mode'', mode_arg (mode c),
     lit ''--static-dir'', static_dir c] @ (if use_io_uring c then [] else [lit ''--no-io-uring''])"

lemma parse_u16_show [simp]: "parse_u16 (show_nat (unat n)) = Some n"
  using unsigned_less [of n] by (simp add: parse_u16_def parse_uint_show_nat)

lemma parse_usize_show [simp]: "parse_usize (show_nat (unat n)) = Some n"
  using unsigned_less [of n] by (simp add: parse_usize_def parse_uint_show_nat)

lemma mode_of_arg_mode_arg [simp]: "mode_of_arg (mode_arg m) = m"
  by (cases m) (simp_all add: mode_of_arg_def mode_arg_def)

text \<open>C30: every configuration can be asked for on the command line: rendering it as arguments and
  parsing them gives it back, whatever strings the host and the directory are (even ones that look
  like flags), provided io_uring is only asked for in a build that has it.\<close>

theorem config_roundtrip:
  assumes "use_io_uring c \<longrightarrow> feature"
  shows "parse_args avail feature (prog # render_args c) = Run c"
proof (cases "use_io_uring c")
  case True
  with assms show ?thesis
    by (simp add: parse_args_def render_args_def default_config_def)
next
  case False
  then show ?thesis
    by (simp add: parse_args_def render_args_def default_config_def)
qed

theorem config_roundtrip_witness:
  "parse_args None False (lit ''server'' # render_args \<lparr>host = lit ''--help'', port = 9000,
      num_workers = 0, mode = DynamicPath, static_dir = [], use_io_uring = False\<rparr>) =
   Run \<lparr>host = lit ''--help'', port = 9000, num_workers = 0, mode = DynamicPath, static_dir = [],
      use_io_uring = False\<rparr>"
  by (rule config_roundtrip) simp

lemma use_io_uring_default [simp]: "use_io_uring (default_config avail feature) = feature"
  by (simp add: default_config_def)

lemma parse_loop_no_io_uring:
  "\<not> use_io_uring config \<Longrightarrow>
    (case parse_loop avail config as of Run c \<Rightarrow> \<not> use_io_uring c | ExitHelp \<Rightarrow> True)"
proof (induction avail config as rule: parse_loop.induct)
  case (2 avail config a rest)
  then show ?case by (simp split: list.split)
qed simp

lemma parse_loop_io_uring:
  "parse_loop avail config as = Run c \<Longrightarrow> use_io_uring c \<Longrightarrow> use_io_uring config"
  using parse_loop_no_io_uring [of config avail "as"] by auto

text \<open>The backend that is announced for a parsed command line is io_uring exactly when the command
  line leaves it on and it is available, and leaving it on means that the build has it; everything
  else falls back to epoll.\<close>

theorem backend_selection:
  assumes "parse_args avail feature args = Run c"
  shows "detect_backend feature available (use_io_uring c) =
      (if use_io_uring c \<and> available then IoUring else Epoll_Backend) \<and>
    (feature \<or> \<not> use_io_uring c)"
proof -
  have "feature" if "use_io_uring c"
    using assms that parse_loop_io_uring [of avail "default_config avail feature" "drop 1 args" c]
    by (simp add: parse_args_def)
  then show ?thesis
    by (auto simp: detect_backend_def)
qed

theorem backend_selection_witness:
  "detect_backend True False (use_io_uring (default_config None True)) = Epoll_Backend \<and>
   use_io_uring (default_config None True)"
proof -
  have "parse_args None True [] = Run (default_config None True)"
    by (simp add: parse_args_def)
  from backend_selection [OF this, of False] show ?thesis by simp
qed

end
