(* ===== verification/Mmap.thy ===== *)
theory Mmap
  imports Syscalls
begin

text \<open>
  \<open>src/file/mmap.rs\<close>: memory-mapped files.  Opening, sizing and mapping are system calls; the open
  \<open>File\<close> is closed when it is dropped, on every error return and after the unmapping.
\<close>

record mmap_file =
  mm_ptr :: u64
  mm_len :: u64
  mm_file :: raw_fd
  mm_data :: "byte list"

text \<open>Dropping a \<open>File\<close> closes its descriptor and ignores the result.\<close>

definition drop_file :: "'w kernel \<Rightarrow> raw_fd \<Rightarrow> 'w os \<Rightarrow> 'w os" where
  "drop_file k fd m = snd (do_call k (SysClose fd) m)"

text \<open>
  \<open>MmapFile::new\<close>.  The size of the file is the \<open>ret64\<close> of the metadata call, the address of the
  mapping that of the map call, all ones when mapping failed; the mapped bytes are its \<open>out_bytes\<close>.
\<close>

definition MmapFile_new :: "'w kernel \<Rightarrow> rstr \<Rightarrow> ('w os, mmap_file) io" where
  "MmapFile_new k path m =
    (let (r, m) = do_call k (SysOpen path) m in
     if ret32 r <s 0 then (Err OpenFailed, m)
     else
       let file = ret32 r; (r, m) = do_call k (SysFstat file) m in
       if ret32 r <s 0 then (Err MetadataFailed, drop_file k file m)
       else
         let len = ret64 r in
         if len = 0 then (Err EmptyMmap, drop_file k file m)
         else
           let (r, m) = do_call k (SysMmap file len) m in
           if ret64 r = -1 then (Err MmapFailed, drop_file k file m)
           else if ret64 r = 0 then (Err MmapNull, drop_file k file m)
           else (Ok \<lparr>mm_ptr = ret64 r, mm_len = len, mm_file = file, mm_data = out_bytes r\<rparr>, m))"

text \<open>\<open>slice::from_raw_parts(ptr, len)\<close>: the \<open>len\<close> bytes at the mapping.\<close>

definition as_slice :: "mmap_file \<Rightarrow> byte list" where
  "as_slice f = overlay (mm_data f) (replicate (unat (mm_len f)) 0)"

definition mm_is_empty :: "mmap_file \<Rightarrow> bool" where
  "mm_is_empty f \<longleftrightarrow> mm_len f = 0"

definition as_ptr :: "mmap_file \<Rightarrow> u64" where
  "as_ptr f = mm_ptr f"

text \<open>\<open>Drop\<close>: unmap, then drop the file.\<close>

definition MmapFile_drop :: "'w kernel \<Rightarrow> mmap_file \<Rightarrow> 'w os \<Rightarrow> 'w os" where
  "MmapFile_drop k f m =
    (let (_, m) = do_call k (SysMunmap (mm_ptr f) (mm_len f)) m in drop_file k (mm_file f) m)"

section \<open>Resources\<close>

fun opened_fds :: "systrace \<Rightarrow> raw_fd list" where
  "opened_fds [] = []"
| "opened_fds ((SysOpen p, r) # t) = (if ret32 r <s 0 then opened_fds t else ret32 r # opened_fds t)"
| "opened_fds (_ # t) = opened_fds t"

fun mapped :: "systrace \<Rightarrow> (u64 \<times> u64) list" where
  "mapped [] = []"
| "mapped ((SysMmap fd len, r) # t) =
     (if ret64 r = -1 \<or> ret64 r = 0 then mapped t else (ret64 r, len) # mapped t)"
| "mapped (_ # t) = mapped t"

fun unmapped :: "systrace \<Rightarrow> (u64 \<times> u64) list" where
  "unmapped [] = []"
| "unmapped ((SysMunmap p len, r) # t) = (p, len) # unmapped t"
| "unmapped (_ # t) = unmapped t"

text \<open>The calls on files.\<close>

fun file_call :: "syscall \<Rightarrow> bool" where
  "file_call (SysStat p) = True"
| "file_call (SysOpen p) = True"
| "file_call (SysFstat fd) = True"
| "file_call (SysMmap fd len) = True"
| "file_call (SysMunmap p len) = True"
| "file_call (SysClose fd) = True"
| "file_call _ = False"

text \<open>The paths named in a trace.\<close>

fun paths_asked :: "systrace \<Rightarrow> rstr list" where
  "paths_asked [] = []"
| "paths_asked ((SysStat p, r) # t) = p # paths_asked t"
| "paths_asked ((SysOpen p, r) # t) = p # paths_asked t"
| "paths_asked (_ # t) = paths_asked t"

lemma paths_asked_append [simp]: "paths_asked (s @ t) = paths_asked s @ paths_asked t"
  by (induction s rule: paths_asked.induct) simp_all

lemma trace_lists_append [simp]:
  "opened_fds (s @ t) = opened_fds s @ opened_fds t"
  "mapped (s @ t) = mapped s @ mapped t"
  "unmapped (s @ t) = unmapped s @ unmapped t"
  subgoal by (induction s rule: opened_fds.induct) simp_all
  subgoal by (induction s rule: mapped.induct) simp_all
  subgoal by (induction s rule: unmapped.induct) simp_all
  done

lemma drop_file_trace: "\<exists>r. trace (drop_file k fd m) = trace m @ [(SysClose fd, r)]"
  by (rule do_call_obtain [of k "SysClose fd" m]) (auto simp: drop_file_def)

lemma MmapFile_new_trace:
  assumes "MmapFile_new k path m = (res, m')"
  shows "\<exists>new. trace m' = trace m @ new \<and> (\<forall>(c, r) \<in> set new. file_call c) \<and>
    paths_asked new = [path] \<and>
    (case res of
       Ok f \<Rightarrow> opened_fds new = [mm_file f] \<and> closed_fds new = [] \<and>
         mapped new = [(mm_ptr f, mm_len f)] \<and> unmapped new = [] \<and> mm_len f \<noteq> 0 \<and> mm_ptr f \<noteq> 0
     | Err e \<Rightarrow> closed_fds new = opened_fds new \<and> mapped new = [] \<and> unmapped new = []
     | Panic \<Rightarrow> False)"
proof -
  obtain r1 m1 where c1: "do_call k (SysOpen path) m = (r1, m1)"
    "trace m1 = trace m @ [(SysOpen path, r1)]" by (rule do_call_obtain)
  obtain r2 m2 where c2: "do_call k (SysFstat (ret32 r1)) m1 = (r2, m2)"
    "trace m2 = trace m1 @ [(SysFstat (ret32 r1), r2)]" by (rule do_call_obtain)
  obtain r3 m3 where c3: "do_call k (SysMmap (ret32 r1) (ret64 r2)) m2 = (r3, m3)"
    "trace m3 = trace m2 @ [(SysMmap (ret32 r1) (ret64 r2), r3)]" by (rule do_call_obtain)
  obtain d2 d3 where d: "trace (drop_file k (ret32 r1) m2) = trace m2 @ [(SysClose (ret32 r1), d2)]"
    "trace (drop_file k (ret32 r1) m3) = trace m3 @ [(SysClose (ret32 r1), d3)]"
    using drop_file_trace by metis
  show ?thesis
    using assms c1 c2 c3 d
    by (auto simp: MmapFile_new_def Let_def split: if_splits)
qed

lemma MmapFile_drop_trace:
  "\<exists>r r'. trace (MmapFile_drop k f m) =
     trace m @ [(SysMunmap (mm_ptr f) (mm_len f), r), (SysClose (mm_file f), r')]"
proof -
  obtain r m1 where c: "do_call k (SysMunmap (mm_ptr f) (mm_len f)) m = (r, m1)"
    "trace m1 = trace m @ [(SysMunmap (mm_ptr f) (mm_len f), r)]" by (rule do_call_obtain)
  then show ?thesis
    using drop_file_trace [of k "mm_file f" m1] by (auto simp: MmapFile_drop_def)
qed

text \<open>Mapping a file leaks nothing.  Whatever the kernel answers, \<open>MmapFile::new\<close> does not panic; on
  every error it has closed the file it opened and holds no mapping; on success it holds one open
  file and one non-empty mapping, and dropping the value unmaps exactly that address and length and
  closes that file, in this order.\<close>

theorem mmap_resources:
  assumes "MmapFile_new k path m = (res, m')"
  shows "res \<noteq> Panic \<and>
    (\<exists>new. trace m' = trace m @ new \<and>
      (\<forall>e. res = Err e \<longrightarrow> closed_fds new = opened_fds new \<and> mapped new = []) \<and>
      (\<forall>f. res = Ok f \<longrightarrow>
         opened_fds new = [mm_file f] \<and> closed_fds new = [] \<and>
         mapped new = [(mm_ptr f, mm_len f)] \<and> mm_len f \<noteq> 0 \<and>
         (\<exists>r r'. trace (MmapFile_drop k f m') =
            trace m' @ [(SysMunmap (mm_ptr f) (mm_len f), r), (SysClose (mm_file f), r')])))"
proof -
  from MmapFile_new_trace [OF assms] obtain new where new: "trace m' = trace m @ new"
    "case res of
       Ok f \<Rightarrow> opened_fds new = [mm_file f] \<and> closed_fds new = [] \<and>
         mapped new = [(mm_ptr f, mm_len f)] \<and> unmapped new = [] \<and> mm_len f \<noteq> 0 \<and> mm_ptr f \<noteq> 0
     | Err e \<Rightarrow> closed_fds new = opened_fds new \<and> mapped new = [] \<and> unmapped new = []
     | Panic \<Rightarrow> False"
    by blast
  then show ?thesis
    using MmapFile_drop_trace [of k _ m'] by (cases res) auto
qed

theorem mmap_resources_witness:
  "\<exists>new. [(SysOpen [97], ret_int 5), (SysFstat 5, (ret_int 0)\<lparr>ret64 := 0\<rparr>), (SysClose 5, ret_int 0)]
      = [] @ new \<and> closed_fds new = opened_fds new \<and> mapped new = []"
proof -
  have "MmapFile_new script [97]
      \<lparr>world = [ret_int 5, (ret_int 0)\<lparr>ret64 := 0\<rparr>, ret_int 0], trace = []\<rparr> =
    (Err EmptyMmap, \<lparr>world = [], trace = [(SysOpen [97], ret_int 5),
       (SysFstat 5, (ret_int 0)\<lparr>ret64 := 0\<rparr>), (SysClose 5, ret_int 0)]\<rparr>)"
    by (simp add: MmapFile_new_def drop_file_def word_sless_alt)
  from mmap_resources [OF this] show ?thesis by auto
qed

text \<open>
  The slice served has the length of the file at the time it was opened, and when the kernel maps
  that many bytes it is those bytes.
\<close>

lemma length_as_slice [simp]: "length (as_slice f) = unat (mm_len f)"
  by (simp add: as_slice_def)

lemma as_slice_data: "length (mm_data f) = unat (mm_len f) \<Longrightarrow> as_slice f = mm_data f"
  by (simp add: as_slice_def overlay_def)

end
