(* ===== verification/Sendfile.thy ===== *)
theory Sendfile
  imports Syscalls
begin

text \<open>
  \<open>src/file/sendfile.rs\<close>: the zero-copy transfers, each one system call, and the loop that sends a
  whole file in pieces of at most 1 GiB.  The loop may not end on a kernel that keeps sending
  more than it was asked to, and is a partial function; the theorem shows that it ends on every
  kernel that does not, with 64-bit arithmetic that never wraps.
\<close>

section \<open>Operations\<close>

text \<open>
  The kernel is handed a pointer to a copy of the offset or a null pointer, that is \<open>Some\<close> value or
  \<open>None\<close>; what it writes to the copy is dropped.
\<close>

definition send_file :: "'w kernel \<Rightarrow> raw_fd \<Rightarrow> raw_fd \<Rightarrow> i64 option \<Rightarrow> u64 \<Rightarrow> ('w os, u64) io" where
  "send_file k out_fd in_fd offset cnt m =
    (let (r, m) = do_call k (SysSendfile out_fd in_fd offset cnt) m in
     if ret64 r <s 0 then (Err SendfileFailed, m) else (Ok (ret64 r), m))"

definition send_file64 :: "'w kernel \<Rightarrow> raw_fd \<Rightarrow> raw_fd \<Rightarrow> i64 option \<Rightarrow> u64 \<Rightarrow> ('w os, u64) io" where
  "send_file64 k out_fd in_fd offset cnt = send_file k out_fd in_fd offset cnt"

partial_function (option) send_loop ::
    "'w kernel \<Rightarrow> raw_fd \<Rightarrow> raw_fd \<Rightarrow> u64 \<Rightarrow> u64 \<Rightarrow> i64 \<Rightarrow> 'w os \<Rightarrow> (u64 res \<times> 'w os) option" where
  "send_loop k out_fd in_fd file_size total_sent offset m =
    (if total_sent < file_size then
       let remaining = file_size - total_sent;
           to_send = min remaining (1024 * 1024 * 1024) in
       case send_file k out_fd in_fd (Some offset) to_send m of
         (Ok sent, m) \<Rightarrow>
           if sent = 0 then Some (Ok total_sent, m)
           else send_loop k out_fd in_fd file_size (total_sent + sent) (offset + sent) m
       | (Err e, m) \<Rightarrow> if 0 < total_sent then Some (Ok total_sent, m) else Some (Err e, m)
       | (Panic, m) \<Rightarrow> Some (Panic, m)
     else Some (Ok total_sent, m))"

definition send_entire_file ::
    "'w kernel \<Rightarrow> raw_fd \<Rightarrow> raw_fd \<Rightarrow> 'w os \<Rightarrow> (u64 res \<times> 'w os) option" where
  "send_entire_file k out_fd in_fd m =
    (let (r, m) = do_call k (SysFstat in_fd) m in
     if ret32 r <s 0 then Some (Err MetadataFailed, m)
     else send_loop k out_fd in_fd (ret64 r) 0 0 m)"

definition splice_data ::
    "'w kernel \<Rightarrow> raw_fd \<Rightarrow> i64 option \<Rightarrow> raw_fd \<Rightarrow> i64 option \<Rightarrow> u64 \<Rightarrow> u32 \<Rightarrow> ('w os, u64) io" where
  "splice_data k fd_in off_in fd_out off_out len flags m =
    (let (r, m) = do_call k (SysSplice fd_in off_in fd_out off_out len flags) m in
     if ret64 r <s 0 then (Err SpliceFailed, m) else (Ok (ret64 r), m))"

definition vmsplice_write :: "'w kernel \<Rightarrow> raw_fd \<Rightarrow> byte list list \<Rightarrow> u32 \<Rightarrow> ('w os, u64) io" where
  "vmsplice_write k fd buffers flags m =
    (let (r, m) = do_call k (SysVmsplice fd buffers flags) m in
     if ret64 r <s 0 then (Err VmspliceFailed, m) else (Ok (ret64 r), m))"

section \<open>The specification of the loop\<close>

text \<open>The bytes a trace of transfers moved.\<close>

fun sent_bytes :: "systrace \<Rightarrow> nat" where
  "sent_bytes [] = 0"
| "sent_bytes ((SysSendfile out i off n, r) # t) =
     (if ret64 r <s 0 then sent_bytes t else unat (ret64 r) + sent_bytes t)"
| "sent_bytes (_ # t) = sent_bytes t"

text \<open>
  Contiguous pieces of a file of \<open>flen\<close> bytes from byte \<open>pos\<close> on: each call starts where the bytes
  already sent end, asks for all that is left but at most 1 GiB, and a call that fails or sends
  nothing is the last one.
\<close>

fun pieces :: "raw_fd \<Rightarrow> raw_fd \<Rightarrow> u64 \<Rightarrow> nat \<Rightarrow> systrace \<Rightarrow> bool" where
  "pieces out_fd in_fd flen pos [] \<longleftrightarrow> True"
| "pieces out_fd in_fd flen pos ((SysSendfile out i off n, r) # t) \<longleftrightarrow>
    out = out_fd \<and> i = in_fd \<and> off = Some (word_of_nat pos) \<and> pos < unat flen \<and>
    unat n = min (unat flen - pos) (2 ^ 30) \<and>
    (if ret64 r <s 0 \<or> ret64 r = 0 then t = []
     else pieces out_fd in_fd flen (pos + unat (ret64 r)) t)"
| "pieces out_fd in_fd flen pos (_ # t) \<longleftrightarrow> False"

text \<open>\<open>sendfile(2)\<close> never reports more bytes than it was asked to send.\<close>

definition sendfile_bounded :: "'w kernel \<Rightarrow> bool" where
  "sendfile_bounded k \<longleftrightarrow>
    (\<forall>out i off n w. let r = fst (k (SysSendfile out i off n) w) in
       ret64 r <s 0 \<or> ret64 r \<le> n)"

lemma min_1GiB: "unat (min (a :: u64) (1024 * 1024 * 1024)) = min (unat a) (2 ^ 30)"
  by (simp add: min_def word_le_nat_alt)

lemma send_loop_spec:
  assumes "sendfile_bounded k" and "pos \<le> flen"
  shows "\<exists>res m' new. send_loop k out_fd in_fd flen pos pos m = Some (res, m') \<and>
    trace m' = trace m @ new \<and> pieces out_fd in_fd flen (unat pos) new \<and>
    (case res of
       Ok n \<Rightarrow> unat n = unat pos + sent_bytes new \<and> n \<le> flen \<and>
         (n = flen \<or> (new \<noteq> [] \<and> (ret64 (snd (last new)) <s 0 \<or> ret64 (snd (last new)) = 0)))
     | Err e \<Rightarrow> e = SendfileFailed \<and> pos = 0 \<and> sent_bytes new = 0 \<and> new \<noteq> []
     | Panic \<Rightarrow> False)"
  using assms(2)
proof (induction "unat (flen - pos)" arbitrary: pos m rule: less_induct)
  case less
  show ?case
  proof (cases "pos < flen")
    case False
    with less.prems have "pos = flen" by simp
    then show ?thesis
      by (intro exI [of _ "Ok pos"] exI [of _ m] exI [of _ "[]"])
        (simp add: send_loop.simps [of _ _ _ flen])
  next
    case True
    let ?n = "min (flen - pos) (1024 * 1024 * 1024)"
    let ?c = "SysSendfile out_fd in_fd (Some pos) ?n"
    obtain r m1 where c: "do_call k ?c m = (r, m1)" by fastforce
    have tr: "trace m1 = trace m @ [(?c, r)]" using c by (rule do_call_trace)
    have flen: "unat (flen - pos) = unat flen - unat pos" "unat pos < unat flen"
      using unat_sub_no_wrap [OF less.prems] True by (simp_all add: word_less_nat_alt)
    have n: "unat ?n = min (unat flen - unat pos) (2 ^ 30)"
      by (simp only: min_1GiB flen)
    show ?thesis
    proof (cases "ret64 r <s 0 \<or> ret64 r = 0")
      case True
      let ?res = "if ret64 r <s 0 \<and> pos = 0 then Err SendfileFailed else Ok pos"
      have "send_loop k out_fd in_fd flen pos pos m = Some (?res, m1)"
        using c True \<open>pos < flen\<close>
        by (subst send_loop.simps) (auto simp: send_file_def Let_def word_gt_0)
      with True tr flen n less.prems show ?thesis
        by (intro exI [of _ ?res] exI [of _ m1] exI [of _ "[(?c, r)]"]) auto
    next
      case more: False
      have kc: "fst (k ?c (world m)) = r"
        using c by (auto simp: do_call_def split: prod.splits)
      have "ret64 r \<le> ?n"
        using assms(1) more kc unfolding sendfile_bounded_def Let_def by blast
      then have bound: "unat (ret64 r) \<le> unat flen - unat pos" "0 < unat (ret64 r)"
        using n more by (auto simp: word_le_nat_alt unat_gt_0)
      then have sum: "unat (pos + ret64 r) = unat pos + unat (ret64 r)"
        using bound flen unat_u64_less [of flen] by (intro unat_add_no_wrap) simp
      have le: "pos + ret64 r \<le> flen"
        using bound flen sum by (simp add: word_le_nat_alt)
      then have "unat (flen - (pos + ret64 r)) < unat (flen - pos)"
        using bound flen sum by (simp add: unat_sub)
      from less.hyps [OF this le, of m1] obtain res m' new where IH:
        "send_loop k out_fd in_fd flen (pos + ret64 r) (pos + ret64 r) m1 = Some (res, m')"
        "trace m' = trace m1 @ new" "pieces out_fd in_fd flen (unat (pos + ret64 r)) new"
        "case res of
           Ok n \<Rightarrow> unat n = unat (pos + ret64 r) + sent_bytes new \<and> n \<le> flen \<and>
             (n = flen \<or> (new \<noteq> [] \<and> (ret64 (snd (last new)) <s 0 \<or> ret64 (snd (last new)) = 0)))
         | Err e \<Rightarrow> e = SendfileFailed \<and> pos + ret64 r = 0 \<and> sent_bytes new = 0 \<and> new \<noteq> []
         | Panic \<Rightarrow> False"
        by blast
      have step: "send_loop k out_fd in_fd flen pos pos m = Some (res, m')"
        using IH(1) c more \<open>pos < flen\<close>
        by (subst send_loop.simps) (simp add: send_file_def Let_def)
      have "pos + ret64 r \<noteq> 0"
        using sum bound by (metis add_is_0 less_numeral_extra(3) unsigned_0)
      then obtain t where "res = Ok t" using IH(4) by (cases res) auto
      with step IH sum more tr flen n show ?thesis
        by (intro exI [of _ res] exI [of _ m'] exI [of _ "(?c, r) # new"]) auto
    qed
  qed
qed

text \<open>C15: sending a whole file.  On every kernel that sends no more than it is asked to, the loop ends; the
  calls it made are contiguous pieces of the file from its first byte, each of all that is left but
  at most 1 GiB, and a call that failed or sent nothing was the last.  The result is the number of
  bytes the kernel sent, at most the size of the file, and the whole size unless the last call failed
  or sent nothing; an error is returned only when nothing was sent.\<close>

theorem send_entire_file_spec:
  assumes "sendfile_bounded k"
  shows "\<exists>res m' r new. send_entire_file k out_fd in_fd m = Some (res, m') \<and>
    trace m' = trace m @ (SysFstat in_fd, r) # new \<and>
    (if ret32 r <s 0 then res = Err MetadataFailed \<and> new = []
     else pieces out_fd in_fd (ret64 r) 0 new \<and>
       (case res of
          Ok n \<Rightarrow> unat n = sent_bytes new \<and> n \<le> ret64 r \<and>
            (n = ret64 r \<or>
              (new \<noteq> [] \<and> (ret64 (snd (last new)) <s 0 \<or> ret64 (snd (last new)) = 0)))
        | Err e \<Rightarrow> e = SendfileFailed \<and> sent_bytes new = 0 \<and> new \<noteq> []
        | Panic \<Rightarrow> False))"
proof -
  obtain r m1 where c: "do_call k (SysFstat in_fd) m = (r, m1)" by fastforce
  show ?thesis
  proof (cases "ret32 r <s 0")
    case True
    with c show ?thesis
      by (intro exI [of _ "Err MetadataFailed"] exI [of _ m1] exI [of _ r] exI [of _ "[]"])
        (simp add: send_entire_file_def do_call_trace)
  next
    case False
    from send_loop_spec [OF assms, of 0 "ret64 r" out_fd in_fd m1] obtain res m' new where
      run: "send_loop k out_fd in_fd (ret64 r) 0 0 m1 = Some (res, m')" "trace m' = trace m1 @ new"
        "pieces out_fd in_fd (ret64 r) 0 new"
        "case res of
           Ok n \<Rightarrow> unat n = sent_bytes new \<and> n \<le> ret64 r \<and>
             (n = ret64 r \<or>
               (new \<noteq> [] \<and> (ret64 (snd (last new)) <s 0 \<or> ret64 (snd (last new)) = 0)))
         | Err e \<Rightarrow> e = SendfileFailed \<and> sent_bytes new = 0 \<and> new \<noteq> []
         | Panic \<Rightarrow> False"
      by (auto simp: cong: res.case_cong)
    with c False show ?thesis
      by (intro exI [of _ res] exI [of _ m'] exI [of _ r] exI [of _ new])
        (simp add: send_entire_file_def do_call_trace [OF c])
  qed
qed

text \<open>A kernel with one file of the length its world says, which sends at most 100 bytes per call.\<close>

fun slow_kernel :: "u64 kernel" where
  "slow_kernel (SysFstat fd) w = ((ret_int 0)\<lparr>ret64 := w\<rparr>, w)"
| "slow_kernel (SysSendfile out i off n) w = ((ret_int 0)\<lparr>ret64 := min n 100\<rparr>, w)"
| "slow_kernel _ w = (ret_int (-1), w)"

theorem send_entire_file_spec_witness:
  "\<exists>res m' r new. send_entire_file slow_kernel 7 5 \<lparr>world = 250, trace = []\<rparr> = Some (res, m') \<and>
    trace m' = (SysFstat 5, r) # new \<and> (ret32 r <s 0 \<or> pieces 7 5 (ret64 r) 0 new)"
proof -
  have "sendfile_bounded slow_kernel" by (simp add: sendfile_bounded_def Let_def)
  from send_entire_file_spec [OF this, of 7 5 "\<lparr>world = 250, trace = []\<rparr>"]
  show ?thesis by (auto split: if_splits)
qed

end
