(* ===== verification/Handlers.thy ===== *)
theory Handlers
  imports Http_Parser Http_Response Epoll Mmap Rust_Path Config
begin

text \<open>
  \<open>src/worker/reactor.rs\<close>, first part: the metrics, the listening socket and the handling of one
  request, from the bytes read to the bytes written: static files, the dynamic routes and their
  error paths.  The metrics library, the JSON serialiser, the HTTP tokenizer, the kernel and the
  iteration orders of the hash maps are collected in one record of parameters.
\<close>

section \<open>Parameters\<close>

text \<open>
  The counters and the histogram of the metrics registry (the \<open>prometheus\<close> crate).  \<open>pr_register\<close> makes
  a metric and registers it under its name, \<open>pr_observe\<close> records the time elapsed since the request
  started (the clock belongs to the library's state), \<open>pr_encode\<close> gathers and encodes all metrics.
\<close>

datatype counter = RequestsTotal | BytesSent

record 'p prometheus =
  pr_register :: "rstr \<Rightarrow> 'p \<Rightarrow> 'p option"
  pr_inc :: "counter \<Rightarrow> 'p \<Rightarrow> 'p"
  pr_inc_by :: "counter \<Rightarrow> u64 \<Rightarrow> 'p \<Rightarrow> 'p"
  pr_get :: "'p \<Rightarrow> counter \<Rightarrow> u64"
  pr_observe :: "'p \<Rightarrow> 'p"
  pr_encode :: "'p \<Rightarrow> byte list option"

record ('w, 'p) platform =
  pf_kernel :: "'w kernel"
  pf_httparse :: httparse
  pf_lower :: "rstr \<Rightarrow> rstr"
  pf_to_vec :: "json_value \<Rightarrow> byte list option"
  pf_prom :: "'p prometheus"
  pf_header_order :: "(rstr \<times> rstr) list \<Rightarrow> (rstr \<times> rstr) list"
  pf_conn_order :: "(raw_fd \<times> connection_state) list \<Rightarrow> (raw_fd \<times> connection_state) list"

text \<open>What the counters of the library promise: they are atomic 64-bit counters that wrap.\<close>

definition counter_laws :: "'p prometheus \<Rightarrow> bool" where
  "counter_laws pr \<longleftrightarrow>
    (\<forall>c c' n p.
       pr_get pr (pr_inc pr c p) c' = (if c' = c then pr_get pr p c + 1 else pr_get pr p c') \<and>
       pr_get pr (pr_inc_by pr c n p) c' = (if c' = c then pr_get pr p c + n else pr_get pr p c') \<and>
       pr_get pr (pr_observe pr p) c = pr_get pr p c)"

text \<open>An instance that keeps the two counters and counts the observations.\<close>

definition plain_prom :: "(u64 \<times> u64 \<times> nat) prometheus" where
  "plain_prom =
    \<lparr>pr_register = (\<lambda>n p. Some p),
     pr_inc = (\<lambda>c (r, b, h). case c of RequestsTotal \<Rightarrow> (r + 1, b, h) | BytesSent \<Rightarrow> (r, b + 1, h)),
     pr_inc_by = (\<lambda>c n (r, b, h). case c of RequestsTotal \<Rightarrow> (r + n, b, h) | BytesSent \<Rightarrow> (r, b + n, h)),
     pr_get = (\<lambda>(r, b, h) c. case c of RequestsTotal \<Rightarrow> r | BytesSent \<Rightarrow> b),
     pr_observe = (\<lambda>(r, b, h). (r, b, Suc h)),
     pr_encode = (\<lambda>p. Some [])\<rparr>"

lemma plain_prom_laws: "counter_laws plain_prom"
  by (simp add: counter_laws_def plain_prom_def split: prod.splits counter.splits)

text \<open>\<open>Metrics::new\<close>\<close>

definition Metrics_new :: "'p prometheus \<Rightarrow> 'p \<Rightarrow> 'p res" where
  "Metrics_new pr registry =
    res_bind (ok_or MetricsError (pr_register pr (lit ''requests_total'') registry)) (\<lambda>registry.
    res_bind (ok_or MetricsError (pr_register pr (lit ''request_duration_seconds'') registry)) (\<lambda>registry.
      ok_or MetricsError (pr_register pr (lit ''bytes_sent_total'') registry)))"

section \<open>The state of the running server\<close>

text \<open>
  What the event loop's thread reads and writes: the machine, the metrics and the shared flag;
  inside the loop the backend goes with it.
\<close>

record ('w, 'p) server =
  sv_os :: "'w os"
  sv_prom :: 'p
  sv_running :: bool

type_synonym ('w, 'p) rstate = "epoll_backend \<times> ('w, 'p) server"

text \<open>\<open>Reactor::new\<close>: the metrics are registered, the flag is off.\<close>

definition Reactor_new :: "'p prometheus \<Rightarrow> 'p \<Rightarrow> 'w os \<Rightarrow> ('w, 'p) server res" where
  "Reactor_new pr registry m =
    res_bind (Metrics_new pr registry) (\<lambda>metrics.
      Ok \<lparr>sv_os = m, sv_prom = metrics, sv_running = False\<rparr>)"

definition on_ep :: "('w ep_os, 'a) io \<Rightarrow> (('w, 'p) rstate, 'a) io" where
  "on_ep f = (\<lambda>(ep, sv).
    let (r, (ep', m)) = f (ep, sv_os sv) in (r, (ep', sv\<lparr>sv_os := m\<rparr>)))"

definition on_os :: "('w os, 'a) io \<Rightarrow> (('w, 'p) rstate, 'a) io" where
  "on_os f = (\<lambda>(ep, sv). let (r, m) = f (sv_os sv) in (r, (ep, sv\<lparr>sv_os := m\<rparr>)))"

definition on_prom :: "('p \<Rightarrow> 'p) \<Rightarrow> (('w, 'p) rstate, unit) io" where
  "on_prom f = (\<lambda>(ep, sv). (Ok (), (ep, sv\<lparr>sv_prom := f (sv_prom sv)\<rparr>)))"

section \<open>The listening socket\<close>

definition AF_INET :: nat where "AF_INET = 2"
definition SOCK_STREAM :: nat where "SOCK_STREAM = 1"
definition SOCK_NONBLOCK :: nat where "SOCK_NONBLOCK = 2048"
definition SOCK_CLOEXEC :: nat where "SOCK_CLOEXEC = 524288"
definition SOL_SOCKET :: nat where "SOL_SOCKET = 1"
definition SO_REUSEADDR :: nat where "SO_REUSEADDR = 2"
definition SO_REUSEPORT :: nat where "SO_REUSEPORT = 15"

text \<open>The three socket flags are different bits, so that \<open>|\<close> adds them.\<close>

definition create_listen_socket :: "'w kernel \<Rightarrow> server_config \<Rightarrow> ('w os, raw_fd) io" where
  "create_listen_socket k config m =
    (let (r, m) = do_call k (SysSocket AF_INET (SOCK_STREAM + SOCK_NONBLOCK + SOCK_CLOEXEC) 0) m;
         socket_fd = ret32 r in
     if socket_fd <s 0 then (Err SocketFailed, m)
     else
       let (_, m) = do_call k (SysSetsockopt socket_fd SOL_SOCKET SO_REUSEADDR 1) m;
           (_, m) = do_call k (SysSetsockopt socket_fd SOL_SOCKET SO_REUSEPORT 1) m in
       case parse_ipv4 (host config) of
         None \<Rightarrow> (Err BadHost, m)
       | Some ip \<Rightarrow>
           let addr = \<lparr>sin_family = word_of_nat AF_INET, sin_port = u16_to_be (port config),
                       sin_addr = u32_to_be (ipv4_to_u32 ip)\<rparr>;
               (r, m) = do_call k (SysBind socket_fd addr) m in
           if ret32 r <s 0 then (Err BindFailed, snd (do_call k (SysClose socket_fd) m))
           else
             let (r, m) = do_call k (SysListen socket_fd 128) m in
             if ret32 r <s 0 then (Err ListenFailed, snd (do_call k (SysClose socket_fd) m))
             else (Ok socket_fd, m))"

section \<open>Static files\<close>

definition path_exists :: "'w kernel \<Rightarrow> rstr \<Rightarrow> ('w os, bool) io" where
  "path_exists k path m =
    (let (r, m) = do_call k (SysStat path) m in (Ok (\<not> ret32 r <s 0), m))"

definition content_type :: "rstr \<Rightarrow> rstr" where
  "content_type ext = lit
    (if ext = lit ''html'' then ''text/html''
     else if ext = lit ''css'' then ''text/css''
     else if ext = lit ''js'' then ''application/javascript''
     else if ext = lit ''json'' then ''application/json''
     else if ext = lit ''png'' then ''image/png''
     else if ext = lit ''jpg'' \<or> ext = lit ''jpeg'' then ''image/jpeg''
     else ''application/octet-stream'')"

text \<open>The response made from the mapped bytes and the path.\<close>

definition file_response :: "byte list \<Rightarrow> rstr \<Rightarrow> http_response" where
  "file_response contents file_path =
    (let response = set_body contents ok_response in
     case path_extension file_path of
       Some ext \<Rightarrow> with_header (lit ''Content-Type'') (content_type ext) response
     | None \<Rightarrow> response)"

definition handle_static_file ::
    "'w kernel \<Rightarrow> server_config \<Rightarrow> http_request \<Rightarrow> ('w os, http_response) io" where
  "handle_static_file k config req =
    io_bind (io_res (clean_path req)) (\<lambda>path.
    io_bind (io_res (slice_from path 1)) (\<lambda>rel.
    let file_path = path_join (static_dir config) rel in
    io_bind (path_exists k file_path) (\<lambda>exists.
      if \<not> exists then io_return not_found
      else
        io_bind (MmapFile_new k file_path) (\<lambda>mmap m.
          (Ok (file_response (as_slice mmap) file_path), MmapFile_drop k mmap m)))))"

section \<open>Dynamic routes\<close>

definition handle_dynamic ::
    "('w, 'p) platform \<Rightarrow> http_request \<Rightarrow> 'p \<Rightarrow> http_response res" where
  "handle_dynamic pf req metrics =
    res_bind (clean_path req) (\<lambda>path.
      if req_method req = lit ''GET'' \<and> path = lit ''/api/health'' then
        Ok (json_response (pf_to_vec pf)
              (JObject [(lit ''status'', JString (lit ''healthy'')), (lit ''uptime'', JNumber 0)])
              ok_response)
      else if req_method req = lit ''GET'' \<and> path = lit ''/api/metrics'' then
        res_bind (ok_or EncodeError (pr_encode (pf_prom pf) metrics)) (\<lambda>buffer.
          Ok (text_response (from_utf8_lossy buffer)
                (with_header (lit ''Content-Type'') (lit ''text/plain; version=0.0.4'') ok_response)))
      else if req_method req = lit ''GET'' \<and> path = lit ''/api/stats'' then
        Ok (json_response (pf_to_vec pf)
              (JObject [(lit ''requests'', JNumber (pr_get (pf_prom pf) metrics RequestsTotal)),
                        (lit ''bytes_sent'', JNumber (pr_get (pf_prom pf) metrics BytesSent))])
              ok_response)
      else Ok not_found)"

section \<open>One request\<close>

definition make_response ::
    "('w, 'p) platform \<Rightarrow> server_config \<Rightarrow> byte list \<Rightarrow> (('w, 'p) rstate, http_response) io" where
  "make_response pf config buf =
    (case HttpRequest_parse (pf_httparse pf) (pf_lower pf) buf of
       Ok req \<Rightarrow>
         (case mode config of
            FastPath \<Rightarrow> on_os (handle_static_file (pf_kernel pf) config req)
          | DynamicPath \<Rightarrow> (\<lambda>(ep, sv). (handle_dynamic pf req (sv_prom sv), (ep, sv))))
     | Err e \<Rightarrow> io_return bad_request
     | Panic \<Rightarrow> io_res Panic)"

definition handle_request ::
    "('w, 'p) platform \<Rightarrow> server_config \<Rightarrow> raw_fd \<Rightarrow> byte list \<Rightarrow> (('w, 'p) rstate, unit) io" where
  "handle_request pf config fd buf =
    io_bind (on_prom (pr_inc (pf_prom pf) RequestsTotal)) (\<lambda>_.
    io_bind (make_response pf config buf) (\<lambda>response.
    let response_bytes = to_bytes (pf_header_order pf) response in
    io_bind (on_ep (epoll_write (pf_kernel pf) fd response_bytes)) (\<lambda>_.
    io_bind (on_prom (pr_inc_by (pf_prom pf) BytesSent (word_of_nat (length response_bytes)))) (\<lambda>_.
      on_prom (pr_observe (pf_prom pf))))))"

section \<open>What the calls of a handler are\<close>

text \<open>The writes of a trace.\<close>

fun writes :: "systrace \<Rightarrow> (raw_fd \<times> byte list) list" where
  "writes [] = []"
| "writes ((SysWrite fd bs, r) # t) = (fd, bs) # writes t"
| "writes (_ # t) = writes t"

lemma writes_append [simp]: "writes (s @ t) = writes s @ writes t"
  by (induction s rule: writes.induct) simp_all

lemma file_calls_only:
  assumes "\<forall>(c, r) \<in> set new. file_call c"
  shows "writes new = []" "foldl (reg_step epfd) S new = S"
  using assms
proof (induction new arbitrary: S)
  case (Cons x new)
  { case 1 with Cons show ?case by (cases x; cases "fst x") auto }
  { case 2 with Cons show ?case by (cases x; cases "fst x") auto }
qed simp_all

section \<open>The listening socket\<close>

lemma create_listen_socket_cases:
  assumes "create_listen_socket k config m = (res, m')"
  obtains
    (no_socket) r where "res = Err SocketFailed" "ret32 r <s 0"
      "trace m' = trace m @ [(SysSocket 2 526337 0, r)]"
  | (bad_host) r r1 r2 where "res = Err BadHost" "\<not> ret32 r <s 0" "parse_ipv4 (host config) = None"
      "trace m' = trace m @ [(SysSocket 2 526337 0, r), (SysSetsockopt (ret32 r) 1 2 1, r1),
         (SysSetsockopt (ret32 r) 1 15 1, r2)]"
  | (no_bind) r r1 r2 r3 r4 ip where "res = Err BindFailed" "\<not> ret32 r <s 0"
      "parse_ipv4 (host config) = Some ip" "ret32 r3 <s 0"
      "trace m' = trace m @ [(SysSocket 2 526337 0, r), (SysSetsockopt (ret32 r) 1 2 1, r1),
         (SysSetsockopt (ret32 r) 1 15 1, r2),
         (SysBind (ret32 r) \<lparr>sin_family = 2, sin_port = u16_to_be (port config),
            sin_addr = u32_to_be (ipv4_to_u32 ip)\<rparr>, r3), (SysClose (ret32 r), r4)]"
  | (no_listen) r r1 r2 r3 r4 r5 ip where "res = Err ListenFailed" "\<not> ret32 r <s 0"
      "parse_ipv4 (host config) = Some ip" "\<not> ret32 r3 <s 0" "ret32 r4 <s 0"
      "trace m' = trace m @ [(SysSocket 2 526337 0, r), (SysSetsockopt (ret32 r) 1 2 1, r1),
         (SysSetsockopt (ret32 r) 1 15 1, r2),
         (SysBind (ret32 r) \<lparr>sin_family = 2, sin_port = u16_to_be (port config),
            sin_addr = u32_to_be (ipv4_to_u32 ip)\<rparr>, r3),
         (SysListen (ret32 r) 128, r4), (SysClose (ret32 r), r5)]"
  | (listening) r r1 r2 r3 r4 ip where "res = Ok (ret32 r)" "\<not> ret32 r <s 0"
      "parse_ipv4 (host config) = Some ip" "\<not> ret32 r3 <s 0" "\<not> ret32 r4 <s 0"
      "trace m' = trace m @ [(SysSocket 2 526337 0, r), (SysSetsockopt (ret32 r) 1 2 1, r1),
         (SysSetsockopt (ret32 r) 1 15 1, r2),
         (SysBind (ret32 r) \<lparr>sin_family = 2, sin_port = u16_to_be (port config),
            sin_addr = u32_to_be (ipv4_to_u32 ip)\<rparr>, r3),
         (SysListen (ret32 r) 128, r4)]"
proof -
  obtain r m0 where c0: "do_call k (SysSocket 2 526337 0) m = (r, m0)"
    "trace m0 = trace m @ [(SysSocket 2 526337 0, r)]" by (rule do_call_obtain)
  obtain r1 m1 where c1: "do_call k (SysSetsockopt (ret32 r) 1 2 1) m0 = (r1, m1)"
    "trace m1 = trace m0 @ [(SysSetsockopt (ret32 r) 1 2 1, r1)]" by (rule do_call_obtain)
  obtain r2 m2 where c2: "do_call k (SysSetsockopt (ret32 r) 1 15 1) m1 = (r2, m2)"
    "trace m2 = trace m1 @ [(SysSetsockopt (ret32 r) 1 15 1, r2)]" by (rule do_call_obtain)
  note flags = AF_INET_def SOCK_STREAM_def SOCK_NONBLOCK_def SOCK_CLOEXEC_def SOL_SOCKET_def
    SO_REUSEADDR_def SO_REUSEPORT_def
  show thesis
  proof (cases "ret32 r <s 0")
    case True
    with assms c0 show ?thesis
      by (intro no_socket) (auto simp: create_listen_socket_def flags)
  next
    case ok: False
    show ?thesis
    proof (cases "parse_ipv4 (host config)")
      case None
      with assms ok c0 c1 c2 show ?thesis
        by (intro bad_host) (auto simp: create_listen_socket_def flags)
    next
      case (Some ip)
      let ?addr = "\<lparr>sin_family = 2, sin_port = u16_to_be (port config),
        sin_addr = u32_to_be (ipv4_to_u32 ip)\<rparr>"
      obtain r3 m3 where c3: "do_call k (SysBind (ret32 r) ?addr) m2 = (r3, m3)"
        "trace m3 = trace m2 @ [(SysBind (ret32 r) ?addr, r3)]" by (rule do_call_obtain)
      obtain rx mx where cx: "do_call k (SysClose (ret32 r)) m3 = (rx, mx)"
        "trace mx = trace m3 @ [(SysClose (ret32 r), rx)]" by (rule do_call_obtain)
      obtain r4 m4 where c4: "do_call k (SysListen (ret32 r) 128) m3 = (r4, m4)"
        "trace m4 = trace m3 @ [(SysListen (ret32 r) 128, r4)]" by (rule do_call_obtain)
      obtain r5 m5 where c5: "do_call k (SysClose (ret32 r)) m4 = (r5, m5)"
        "trace m5 = trace m4 @ [(SysClose (ret32 r), r5)]" by (rule do_call_obtain)
      consider "ret32 r3 <s 0" | "\<not> ret32 r3 <s 0" "ret32 r4 <s 0"
        | "\<not> ret32 r3 <s 0" "\<not> ret32 r4 <s 0" by blast
      then show ?thesis
      proof cases
        case 1
        with assms ok Some c0 c1 c2 c3 cx show ?thesis
          by (intro no_bind) (auto simp: create_listen_socket_def flags)
      next
        case 2
        with assms ok Some c0 c1 c2 c3 c4 c5 show ?thesis
          by (intro no_listen) (auto simp: create_listen_socket_def flags)
      next
        case 3
        with assms ok Some c0 c1 c2 c3 c4 show ?thesis
          by (intro listening) (auto simp: create_listen_socket_def flags)
      qed
    qed
  qed
qed

text \<open>C22: the listening socket.  When the socket is made, it is bound to the configured address and port
  with both in network byte order in memory, after both reuse options were asked for and before
  listening with a backlog of 128; the descriptor returned is the one the kernel gave, not negative.\<close>

theorem listen_socket_address:
  assumes "create_listen_socket k config m = (Ok fd, m')"
  shows "\<exists>a b c d addr r r1 r2 r3 r4.
    parse_ipv4 (host config) = Some (a, b, c, d) \<and> fd = ret32 r \<and> \<not> fd <s 0 \<and>
    trace m' = trace m @ [(SysSocket 2 526337 0, r), (SysSetsockopt fd 1 2 1, r1),
      (SysSetsockopt fd 1 15 1, r2), (SysBind fd addr, r3), (SysListen fd 128, r4)] \<and>
    sin_family addr = 2 \<and>
    le_bytes16 (sin_port addr) = [unat (port config) div 256, unat (port config) mod 256] \<and>
    le_bytes32 (sin_addr addr) = [a, b, c, d]"
  using assms
proof (cases rule: create_listen_socket_cases)
  case (listening r r1 r2 r3 r4 ip)
  obtain a b c d where ip: "ip = (a, b, c, d)" by (cases ip) auto
  let ?addr = "\<lparr>sin_family = 2, sin_port = u16_to_be (port config),
    sin_addr = u32_to_be (ipv4_to_u32 ip)\<rparr>"
  have "le_bytes32 (sin_addr ?addr) = [a, b, c, d]"
    using listening(3) ip parse_ipv4_bound [of "host config" a b c d] by (simp add: le_bytes32_ipv4)
  moreover have "le_bytes16 (sin_port ?addr) = [unat (port config) div 256, unat (port config) mod 256]"
    by (simp add: le_bytes16_to_be)
  moreover have "sin_family ?addr = 2" by simp
  ultimately show ?thesis
    using listening ip by (intro exI conjI) (assumption | simp)+
qed simp_all

definition demo_config :: "rstr \<Rightarrow> server_mode \<Rightarrow> server_config" where
  "demo_config h md =
    \<lparr>host = h, port = 8080, num_workers = 1, mode = md, static_dir = lit ''www'', use_io_uring = False\<rparr>"

lemma parse_ipv4_localhost: "parse_ipv4 (show_ipv4 (127, 0, 0, 2)) = Some (127, 0, 0, 2)"
  by (rule parse_show_ipv4) simp_all

theorem listen_socket_address_witness:
  "\<exists>a b c d addr r r1 r2 r3 r4.
    parse_ipv4 (show_ipv4 (127, 0, 0, 2)) = Some (a, b, c, d) \<and> 3 = ret32 r \<and> \<not> (3::raw_fd) <s 0 \<and>
    trace (snd (create_listen_socket script (demo_config (show_ipv4 (127, 0, 0, 2)) FastPath)
      \<lparr>world = [ret_int 3, ret_int 0, ret_int 0, ret_int 0, ret_int 0], trace = []\<rparr>)) =
      [(SysSocket 2 526337 0, r), (SysSetsockopt 3 1 2 1, r1),
      (SysSetsockopt 3 1 15 1, r2), (SysBind 3 addr, r3), (SysListen 3 128, r4)] \<and>
    sin_family addr = 2 \<and> le_bytes16 (sin_port addr) = [31, 144] \<and>
    le_bytes32 (sin_addr addr) = [a, b, c, d]"
proof -
  let ?c = "demo_config (show_ipv4 (127, 0, 0, 2)) FastPath"
  let ?m = "\<lparr>world = [ret_int 3, ret_int 0, ret_int 0, ret_int 0, ret_int 0], trace = []\<rparr>"
  have "fst (create_listen_socket script ?c ?m) = Ok 3"
    by (simp add: create_listen_socket_def demo_config_def parse_ipv4_localhost word_sless_alt)
  then have "create_listen_socket script ?c ?m = (Ok 3, snd (create_listen_socket script ?c ?m))"
    by (metis prod.collapse)
  from listen_socket_address [OF this] show ?thesis
    by (simp add: demo_config_def)
qed

text \<open>Failures of the listening socket.  A socket that cannot be bound or listened on is closed
  before the error is returned; when the configured host is not an IPv4 address the socket has been
  made already and stays open.\<close>

theorem listen_socket_errors:
  assumes "create_listen_socket k config m = (Err e, m')"
  shows "\<exists>r rest. trace m' = trace m @ (SysSocket 2 526337 0, r) # rest \<and>
    (if e = SocketFailed then ret32 r <s 0 \<and> rest = []
     else \<not> ret32 r <s 0 \<and> (e = BadHost \<longleftrightarrow> parse_ipv4 (host config) = None) \<and>
       closed_fds rest = (if e = BadHost then [] else [ret32 r]))"
  using assms by (cases rule: create_listen_socket_cases) auto

theorem listen_socket_errors_witness:
  "\<exists>r rest. [(SysSocket 2 526337 0, ret_int 3), (SysSetsockopt 3 1 2 1, ret_int 0),
        (SysSetsockopt 3 1 15 1, ret_int 0)] = [] @ (SysSocket 2 526337 0, r) # rest \<and>
    closed_fds rest = []"
proof -
  have "create_listen_socket script (demo_config (lit ''localhost'') FastPath)
      \<lparr>world = [ret_int 3, ret_int 0, ret_int 0], trace = []\<rparr> =
    (Err BadHost, \<lparr>world = [], trace = [(SysSocket 2 526337 0, ret_int 3),
      (SysSetsockopt 3 1 2 1, ret_int 0), (SysSetsockopt 3 1 15 1, ret_int 0)]\<rparr>)"
    by (simp add: create_listen_socket_def demo_config_def parse_ipv4_def parse_octet_def lit_def word_sless_alt
        AF_INET_def SOCK_STREAM_def SOCK_NONBLOCK_def SOCK_CLOEXEC_def SOL_SOCKET_def
        SO_REUSEADDR_def SO_REUSEPORT_def)
  from listen_socket_errors [OF this] show ?thesis by auto
qed

section \<open>Static files\<close>

text \<open>The path as the slices leave it: everything after the first character, before the query.\<close>

definition clean_of :: "http_request \<Rightarrow> rstr" where
  "clean_of req = takeWhile (\<lambda>c. c \<noteq> 63) (req_path req)"

definition file_of :: "server_config \<Rightarrow> http_request \<Rightarrow> rstr" where
  "file_of config req = path_join (static_dir config) (tl (clean_of req))"

lemma slice_from_1:
  "slice_from s (Suc 0) = (if s \<noteq> [] \<and> hd s < 128 then Ok (tl s) else Panic)"
  by (cases s) (auto simp: slice_from_def len_utf8_def split: if_splits option.splits
      elim!: split_at_byte.elims)

lemma handle_static_file_cases:
  assumes "handle_static_file k config req m = (res, m')"
  obtains
    (panics) "res = Panic" "m' = m" "clean_of req = [] \<or> 128 \<le> hd (clean_of req)"
  | (missing) r where "clean_of req \<noteq> []" "hd (clean_of req) < 128" "res = Ok not_found" "ret32 r <s 0"
      "trace m' = trace m @ [(SysStat (file_of config req), r)]"
  | (unmappable) r m0 e where "clean_of req \<noteq> []" "hd (clean_of req) < 128" "res = Err e"
      "\<not> ret32 r <s 0" "trace m0 = trace m @ [(SysStat (file_of config req), r)]"
      "MmapFile_new k (file_of config req) m0 = (Err e, m')"
  | (served) r m0 f m1 where "clean_of req \<noteq> []" "hd (clean_of req) < 128"
      "res = Ok (file_response (as_slice f) (file_of config req))"
      "\<not> ret32 r <s 0" "trace m0 = trace m @ [(SysStat (file_of config req), r)]"
      "MmapFile_new k (file_of config req) m0 = (Ok f, m1)" "m' = MmapFile_drop k f m1"
proof -
  let ?f = "file_of config req"
  obtain r m0 where c: "do_call k (SysStat ?f) m = (r, m0)"
    "trace m0 = trace m @ [(SysStat ?f, r)]" by (rule do_call_obtain)
  obtain n m1 where n: "MmapFile_new k ?f m0 = (n, m1)" by fastforce
  have run: "handle_static_file k config req m =
    (if clean_of req \<noteq> [] \<and> hd (clean_of req) < 128 then
       if ret32 r <s 0 then (Ok not_found, m0)
       else (case n of
               Ok f \<Rightarrow> (Ok (file_response (as_slice f) ?f), MmapFile_drop k f m1)
             | Err e \<Rightarrow> (Err e, m1) | Panic \<Rightarrow> (Panic, m1))
     else (Panic, m))"
  proof (cases "clean_of req \<noteq> [] \<and> hd (clean_of req) < 128")
    case True
    with c n show ?thesis
      by (cases n) (simp_all add: handle_static_file_def io_bind_def io_res_def slice_from_1
          clean_of_def [symmetric] file_of_def path_exists_def io_return_def Let_def)
  next
    case False
    then show ?thesis
      by (auto simp: handle_static_file_def io_bind_def io_res_def slice_from_1
          clean_of_def [symmetric])
  qed
  have np: "n \<noteq> Panic" using MmapFile_new_trace [OF n] by (auto split: res.splits)
  show thesis
  proof (cases "clean_of req \<noteq> [] \<and> hd (clean_of req) < 128")
    case False
    with run assms panics show ?thesis by (auto simp: not_less)
  next
    case True
    show ?thesis
    proof (cases "ret32 r <s 0")
      case stat: True
      show ?thesis using True stat run assms c by (intro missing) auto
    next
      case stat: False
      show ?thesis
      proof (cases n)
        case (Ok f)
        with True stat run assms c n show ?thesis by (intro served) auto
      next
        case (Err e)
        with True stat run assms c n show ?thesis by (intro unmappable) auto
      qed (use np in simp)
    qed
  qed
qed

text \<open>
  The calls of the handler: none when it panics, and otherwise file calls on one path, which leave
  nothing open and nothing mapped.
\<close>

lemma handle_static_file_calls:
  assumes "handle_static_file k config req m = (res, m')"
  shows "\<exists>new. trace m' = trace m @ new \<and> (\<forall>(c, r) \<in> set new. file_call c) \<and>
    closed_fds new = opened_fds new \<and> unmapped new = mapped new \<and>
    set (paths_asked new) = (if res = Panic then {} else {file_of config req})"
  using assms
proof (cases rule: handle_static_file_cases)
  case (unmappable r m0 e)
  from MmapFile_new_trace [OF unmappable(6)] obtain new where "trace m' = trace m0 @ new"
    "\<forall>(c, r) \<in> set new. file_call c" "paths_asked new = [file_of config req]"
    "closed_fds new = opened_fds new" "mapped new = []" "unmapped new = []" by auto
  with unmappable show ?thesis
    by (intro exI [of _ "(SysStat (file_of config req), r) # new"]) auto
next
  case (served r m0 f m1)
  from MmapFile_new_trace [OF served(6)] obtain new where "trace m1 = trace m0 @ new"
    "\<forall>(c, r) \<in> set new. file_call c" "paths_asked new = [file_of config req]"
    "opened_fds new = [mm_file f]" "closed_fds new = []"
    "mapped new = [(mm_ptr f, mm_len f)]" "unmapped new = []" by auto
  moreover obtain r1 r2 where "trace m' = trace m1 @
      [(SysMunmap (mm_ptr f) (mm_len f), r1), (SysClose (mm_file f), r2)]"
    using MmapFile_drop_trace [of k f m1] served(7) by auto
  ultimately show ?thesis
    using served
    by (intro exI [of _ "(SysStat (file_of config req), r) # new @
        [(SysMunmap (mm_ptr f) (mm_len f), r1), (SysClose (mm_file f), r2)]"]) auto
qed auto

text \<open>C17: serving a file leaks nothing and asks for one path only.  Whatever the kernel answers, every
  file the handler opened has been closed and every mapping unmapped when it returns, with a
  response or with an error.  The only path it names is the static directory joined with the
  request's path after its first character; a second slash makes that path absolute, and then the
  static directory plays no part.\<close>

theorem static_file_calls:
  "(\<exists>new. trace (snd (handle_static_file k config req m)) = trace m @ new \<and>
     closed_fds new = opened_fds new \<and> unmapped new = mapped new \<and>
     set (paths_asked new) =
       (if fst (handle_static_file k config req m) = Panic then {} else {file_of config req})) \<and>
   file_of config (req\<lparr>req_path := 47 # 47 # p\<rparr>) = 47 # takeWhile (\<lambda>c. c \<noteq> 63) p"
proof
  obtain res m' where run: "handle_static_file k config req m = (res, m')" by fastforce
  from handle_static_file_calls [OF run]
  show "\<exists>new. trace (snd (handle_static_file k config req m)) = trace m @ new \<and>
     closed_fds new = opened_fds new \<and> unmapped new = mapped new \<and>
     set (paths_asked new) =
       (if fst (handle_static_file k config req m) = Panic then {} else {file_of config req})"
    unfolding run by auto
  show "file_of config (req\<lparr>req_path := 47 # 47 # p\<rparr>) = 47 # takeWhile (\<lambda>c. c \<noteq> 63) p"
    by (simp add: file_of_def clean_of_def path_join_def)
qed

text \<open>C35: the static handler panics, and so aborts the server, exactly when the request's path before
  the query is empty or starts with a character outside ASCII; its slice after the first byte is
  taken without a check.\<close>

theorem static_panics_iff:
  "fst (handle_static_file k config req m) = Panic \<longleftrightarrow>
    takeWhile (\<lambda>c. c \<noteq> 63) (req_path req) = [] \<or> 128 \<le> hd (takeWhile (\<lambda>c. c \<noteq> 63) (req_path req))"
proof -
  obtain res m' where run: "handle_static_file k config req m = (res, m')" by fastforce
  then show ?thesis
    by (cases rule: handle_static_file_cases) (auto simp: run clean_of_def)
qed

section \<open>The responses\<close>

lemma line_safe_content_type [simp]: "line_safe (content_type ext)"
  unfolding content_type_def by (rule line_safe_lit) (simp add: lit_def)

lemma safe_built_canned: "safe_built ok_response" "safe_built not_found" "safe_built bad_request"
  by (auto simp: ok_response_def not_found_def bad_request_def intro: safe_built.intros)

lemma file_response_safe: "safe_built (file_response contents path)"
  by (auto simp: file_response_def Let_def intro!: safe_built.intros safe_built_canned split: option.split)

lemma file_response_fields:
  "resp_status_code (file_response contents path) = 200"
  "resp_body (file_response contents path) = contents"
  "hm_get (resp_headers (file_response contents path)) (lit ''Content-Length'') =
     Some (show_nat (length contents))"
  "hm_get (resp_headers (file_response contents path)) (lit ''Content-Type'') =
     map_option content_type (path_extension path)"
  by (auto simp: file_response_def Let_def set_body_def with_header_def ok_response_def HttpResponse_new_def
      hm.get_insert hm.get_empty split: option.split)

lemma static_file_run:
  assumes "req_path req = 47 # p @ q" and "63 \<notin> set p" and "q = [] \<or> hd q = 63"
    and "do_call k (SysStat (path_join (static_dir config) p)) m = (r, m0)"
  shows "handle_static_file k config req m =
    (if ret32 r <s 0 then (Ok not_found, m0)
     else (case MmapFile_new k (path_join (static_dir config) p) m0 of
         (Ok f, m1) \<Rightarrow>
           (Ok (file_response (as_slice f) (path_join (static_dir config) p)), MmapFile_drop k f m1)
       | (Err e, m1) \<Rightarrow> (Err e, m1)
       | (Panic, m1) \<Rightarrow> (Panic, m1)))"
proof -
  have clean: "takeWhile (\<lambda>c. c \<noteq> 63) (47 # p @ q) = 47 # p"
    using assms(2,3) by (cases q) (auto simp: takeWhile_append2)
  then show ?thesis
    using assms(1,4)
    by (simp add: handle_static_file_def io_bind_def io_res_def slice_from_1
        path_exists_def io_return_def Let_def split: prod.split res.split)
qed

lemma MmapFile_new_not_Panic: "MmapFile_new k path m \<noteq> (Panic, m')"
  by (auto simp: MmapFile_new_def Let_def split: prod.split if_split)

text \<open>C5: what a static request gets.  For a request of a path \<open>/p\<close>, with or without a query: when the
  file does not exist the answer is the 404 response after a single system call; when it exists and
  its mapping delivers the whole file, the answer is a 200 response with the bytes of the file as
  body, its length as \<open>Content-Length\<close> and the type of its extension; when it exists and cannot be
  mapped (an empty file, a directory, no permission) the error is passed on without a response.\<close>

theorem static_file_served:
  assumes "req_path req = 47 # p @ q" and "63 \<notin> set p" and "q = [] \<or> hd q = 63"
    and "do_call k (SysStat (path_join (static_dir config) p)) m = (r, m0)"
  shows "if ret32 r <s 0 then handle_static_file k config req m = (Ok not_found, m0)
    else (case MmapFile_new k (path_join (static_dir config) p) m0 of
        (Ok f, m1) \<Rightarrow> length (mm_data f) = unat (mm_len f) \<longrightarrow>
          (\<exists>resp. handle_static_file k config req m = (Ok resp, MmapFile_drop k f m1) \<and>
            safe_built resp \<and> resp_status_code resp = 200 \<and> resp_body resp = mm_data f \<and>
            hm_get (resp_headers resp) (lit ''Content-Length'') = Some (show_nat (length (mm_data f))) \<and>
            hm_get (resp_headers resp) (lit ''Content-Type'') =
              map_option content_type (path_extension (path_join (static_dir config) p)))
      | (Err e, m1) \<Rightarrow> handle_static_file k config req m = (Err e, m1)
      | (Panic, m1) \<Rightarrow> False)"
proof (cases "MmapFile_new k (path_join (static_dir config) p) m0")
  case (Pair n m1)
  then show ?thesis
    using MmapFile_new_not_Panic [of k _ m0 m1]
    by (cases n) (auto simp: static_file_run [OF assms] as_slice_data file_response_safe file_response_fields)
qed

definition demo_request :: "rstr \<Rightarrow> rstr \<Rightarrow> http_request" where
  "demo_request meth path =
    \<lparr>req_method = meth, req_path = path, req_version = 1, req_headers = [], req_body = []\<rparr>"

theorem static_file_served_witness:
  "(\<exists>resp m1. handle_static_file script (demo_config [] FastPath)
      (demo_request (lit ''GET'') (47 # lit ''a.css'' @ lit ''?x''))
      \<lparr>world = [ret_int 0, ret_int 5, (ret_int 0)\<lparr>ret64 := 2\<rparr>,
         (ret_int 0)\<lparr>ret64 := 4096, out_bytes := [104, 105]\<rparr>, ret_int 0, ret_int 0], trace = []\<rparr> =
      (Ok resp, m1) \<and> resp_body resp = [104, 105]) \<and>
    handle_static_file script (demo_config [] FastPath)
      (demo_request (lit ''GET'') (47 # lit ''a.css'' @ lit ''?x'')) \<lparr>world = [ret_int (-1)], trace = []\<rparr> =
      (Ok not_found, \<lparr>world = [], trace = [(SysStat (path_join (lit ''www'') (lit ''a.css'')), ret_int (-1))]\<rparr>)"
proof -
  let ?c = "demo_config [] FastPath" and ?req = "demo_request (lit ''GET'') (47 # lit ''a.css'' @ lit ''?x'')"
  let ?file = "path_join (lit ''www'') (lit ''a.css'')"
  let ?f = "\<lparr>mm_ptr = 4096, mm_len = 2, mm_file = 5, mm_data = [104, 105]\<rparr>"
  let ?w = "[ret_int 5, (ret_int 0)\<lparr>ret64 := 2\<rparr>,
         (ret_int 0)\<lparr>ret64 := 4096, out_bytes := [104, 105]\<rparr>, ret_int 0, ret_int 0]"
  let ?m0 = "\<lparr>world = ?w, trace = [(SysStat ?file, ret_int 0)]\<rparr>"
  have dir: "static_dir ?c = lit ''www''" by (simp add: demo_config_def)
  have req: "req_path ?req = 47 # lit ''a.css'' @ lit ''?x''" "63 \<notin> set (lit ''a.css'')" "hd (lit ''?x'') = 63"
    by (simp_all add: demo_request_def lit_def)
  note served = static_file_served [OF req(1,2) disjI2 [OF req(3)], where config = ?c, unfolded dir]
  have stat: "do_call script (SysStat ?file) \<lparr>world = ret_int 0 # ?w, trace = []\<rparr> = (ret_int 0, ?m0)"
    "do_call script (SysStat ?file) \<lparr>world = [ret_int (-1)], trace = []\<rparr> =
      (ret_int (-1), \<lparr>world = [], trace = [(SysStat ?file, ret_int (-1))]\<rparr>)"
    by simp_all
  have "fst (MmapFile_new script ?file ?m0) = Ok ?f"
    by (simp add: MmapFile_new_def word_sless_alt)
  then obtain m1 where "MmapFile_new script ?file ?m0 = (Ok ?f, m1)"
    by (metis prod.collapse)
  with served [OF stat(1)] served [OF stat(2)] show ?thesis
    by (auto simp: word_sless_alt)
qed

section \<open>Dynamic routes\<close>

lemma handle_dynamic_eq:
  "handle_dynamic pf req p =
    (if req_method req \<noteq> lit ''GET'' then Ok not_found
     else if clean_of req = lit ''/api/health'' then
       Ok (json_response (pf_to_vec pf)
         (JObject [(lit ''status'', JString (lit ''healthy'')), (lit ''uptime'', JNumber 0)]) ok_response)
     else if clean_of req = lit ''/api/metrics'' then
       (case pr_encode (pf_prom pf) p of None \<Rightarrow> Err EncodeError
        | Some buffer \<Rightarrow> Ok (text_response (from_utf8_lossy buffer)
            (with_header (lit ''Content-Type'') (lit ''text/plain; version=0.0.4'') ok_response)))
     else if clean_of req = lit ''/api/stats'' then
       Ok (json_response (pf_to_vec pf)
         (JObject [(lit ''requests'', JNumber (pr_get (pf_prom pf) p RequestsTotal)),
                   (lit ''bytes_sent'', JNumber (pr_get (pf_prom pf) p BytesSent))]) ok_response)
     else Ok not_found)"
  by (simp add: handle_dynamic_def clean_of_def split: option.split)

lemma handle_dynamic_safe: "handle_dynamic pf req p = Ok resp \<Longrightarrow> safe_built resp"
proof -
  have "line_safe (lit ''text/plain; version=0.0.4'')"
    by (rule line_safe_lit) (simp add: lit_def)
  then have "safe_built (text_response t
      (with_header (lit ''Content-Type'') (lit ''text/plain; version=0.0.4'') ok_response))" for t
    by (intro safe_built.intros safe_built_canned) simp_all
  moreover assume "handle_dynamic pf req p = Ok resp"
  ultimately show ?thesis
    by (auto simp: handle_dynamic_eq intro: safe_built.intros safe_built_canned split: if_splits option.splits)
qed

lemma json_response_status [simp]:
  "resp_status_code (json_response tv d r) = resp_status_code r"
  by (simp add: json_response_def typed_body_def split: option.split)

lemma canned_status [simp]:
  "resp_status_code ok_response = 200" "resp_status_code not_found = 404"
  by (simp_all add: ok_response_def not_found_def HttpResponse_new_def set_body_def)

lemma text_response_status [simp]: "resp_status_code (text_response t r) = resp_status_code r"
  by (simp add: text_response_def typed_body_def)

lemma with_header_status [simp]: "resp_status_code (with_header n v r) = resp_status_code r"
  by (simp add: with_header_def)

text \<open>C36: the routes.  The dynamic handler never panics, and fails only when the metrics are asked for
  and cannot be encoded.  \<open>GET\<close> of its three paths, with any query, is answered with status 200, and
  every other method or path with 404; each answer is one the builder makes.\<close>

theorem dynamic_routes:
  "case handle_dynamic pf req p of
     Ok resp \<Rightarrow> safe_built resp \<and> resp_status_code resp =
       (if req_method req = lit ''GET'' \<and>
           takeWhile (\<lambda>c. c \<noteq> 63) (req_path req) \<in>
             {lit ''/api/health'', lit ''/api/metrics'', lit ''/api/stats''} then 200 else 404)
   | Err e \<Rightarrow> e = EncodeError \<and> req_method req = lit ''GET'' \<and>
       takeWhile (\<lambda>c. c \<noteq> 63) (req_path req) = lit ''/api/metrics'' \<and> pr_encode (pf_prom pf) p = None
   | Panic \<Rightarrow> False"
proof (cases "handle_dynamic pf req p")
  case (Ok resp)
  moreover from Ok have "safe_built resp" by (rule handle_dynamic_safe)
  ultimately show ?thesis
    by (auto simp: handle_dynamic_eq clean_of_def split: if_splits option.splits)
qed (auto simp: handle_dynamic_eq clean_of_def split: if_splits option.splits)

text \<open>The metrics page carries the encoder's text byte for byte, but not the content type the
  handler sets for it: the text body that follows replaces it.\<close>

theorem metrics_page:
  assumes "req_method req = lit ''GET''"
    and "takeWhile (\<lambda>c. c \<noteq> 63) (req_path req) = lit ''/api/metrics''"
    and "pr_encode (pf_prom pf) p = Some (as_bytes t)" and "valid_str t"
  shows "\<exists>resp. handle_dynamic pf req p = Ok resp \<and> resp_body resp = as_bytes t \<and>
    hm_get (resp_headers resp) (lit ''Content-Type'') = Some (lit ''text/plain; charset=utf-8'') \<and>
    hm_get (resp_headers resp) (lit ''Content-Length'') = Some (show_nat (length (as_bytes t)))"
  using assms
  by (simp add: handle_dynamic_eq clean_of_def from_utf8_lossy_as_bytes text_response_def
      typed_body_def hm.get_insert)

definition demo_platform :: "httparse \<Rightarrow> (sysret list, u64 \<times> u64 \<times> nat) platform" where
  "demo_platform hp =
    \<lparr>pf_kernel = script, pf_httparse = hp, pf_lower = id, pf_to_vec = (\<lambda>_. Some [123, 125]),
     pf_prom = plain_prom, pf_header_order = id, pf_conn_order = id\<rparr>"

theorem metrics_page_witness:
  "\<exists>resp. handle_dynamic (demo_platform (\<lambda>_ _. None))
      (demo_request (lit ''GET'') (lit ''/api/metrics'' @ lit ''?a'')) (0, 0, 0) = Ok resp \<and>
    resp_body resp = [] \<and>
    hm_get (resp_headers resp) (lit ''Content-Type'') = Some (lit ''text/plain; charset=utf-8'') \<and>
    hm_get (resp_headers resp) (lit ''Content-Length'') = Some (lit ''0'')"
proof -
  let ?r = "demo_request (lit ''GET'') (lit ''/api/metrics'' @ lit ''?a'')"
  have "req_method ?r = lit ''GET''" "takeWhile (\<lambda>c. c \<noteq> 63) (req_path ?r) = lit ''/api/metrics''"
    "pr_encode (pf_prom (demo_platform (\<lambda>_ _. None))) (0, 0, 0) = Some (as_bytes [])"
    by (simp_all add: demo_request_def demo_platform_def plain_prom_def lit_def)
  from metrics_page [OF this] show ?thesis
    by (auto simp: show_nat.simps [of 0] lit_def)
qed

section \<open>One request\<close>

text \<open>Making the response only touches files: the table, the metrics and the flag stay.\<close>

lemma make_response_effects:
  assumes "make_response pf config buf (ep, sv) = (res, (ep', sv'))"
  shows "ep' = ep \<and> (\<exists>m. sv' = sv\<lparr>sv_os := m\<rparr>) \<and> (\<forall>resp. res = Ok resp \<longrightarrow> safe_built resp) \<and>
    (\<exists>new. trace (sv_os sv') = trace (sv_os sv) @ new \<and> (\<forall>(c, r) \<in> set new. file_call c) \<and>
       closed_fds new = opened_fds new)"
proof (cases "HttpRequest_parse (pf_httparse pf) (pf_lower pf) buf")
  case (Ok req)
  show ?thesis
  proof (cases "mode config")
    case FastPath
    obtain r m where run: "handle_static_file (pf_kernel pf) config req (sv_os sv) = (r, m)"
      by fastforce
    then have "safe_built resp" if "r = Ok resp" for resp
      using that by (cases rule: handle_static_file_cases) (auto simp: safe_built_canned file_response_safe)
    with assms Ok FastPath handle_static_file_calls [OF run] show ?thesis
      by (auto simp: make_response_def on_os_def run)
  next
    case DynamicPath
    with assms Ok show ?thesis
      by (auto simp: make_response_def intro: handle_dynamic_safe intro!: exI [of _ "sv_os sv"])
  qed
qed (use assms in \<open>auto simp: make_response_def io_return_def io_res_def safe_built_canned
      intro!: exI [of _ "sv_os sv"]\<close>)

text \<open>The three ways a request ends: no response, a response that cannot be written, or both.\<close>

lemma handle_request_cases:
  assumes "handle_request pf config fd buf (ep, sv) = (res, (ep', sv'))"
  defines "sv0 \<equiv> sv\<lparr>sv_prom := pr_inc (pf_prom pf) RequestsTotal (sv_prom sv)\<rparr>"
  obtains
    (no_response) e where "res = Err e" "make_response pf config buf (ep, sv0) = (Err e, (ep', sv'))"
  | (panics) "res = Panic" "make_response pf config buf (ep, sv0) = (Panic, (ep', sv'))"
  | (no_write) resp sv1 r where "res = Err WriteFailed"
      "make_response pf config buf (ep, sv0) = (Ok resp, (ep', sv1))" "ret64 r <s 0"
      "\<exists>m. sv' = sv1\<lparr>sv_os := m\<rparr>"
      "trace (sv_os sv') = trace (sv_os sv1) @ [(SysWrite fd (to_bytes (pf_header_order pf) resp), r)]"
  | (answered) resp sv1 r where "res = Ok ()"
      "make_response pf config buf (ep, sv0) = (Ok resp, (ep', sv1))" "\<not> ret64 r <s 0"
      "\<exists>m. sv' = sv1\<lparr>sv_os := m, sv_prom := pr_observe (pf_prom pf) (pr_inc_by (pf_prom pf) BytesSent
         (word_of_nat (length (to_bytes (pf_header_order pf) resp))) (sv_prom sv1))\<rparr>"
      "trace (sv_os sv') = trace (sv_os sv1) @ [(SysWrite fd (to_bytes (pf_header_order pf) resp), r)]"
proof -
  obtain r1 ep1 sv1 where mk: "make_response pf config buf (ep, sv0) = (r1, (ep1, sv1))"
    by (metis prod.collapse)
  note run = assms(1) [unfolded handle_request_def io_bind_def on_prom_def, simplified,
      folded sv0_def, unfolded mk, simplified]
  show thesis
  proof (cases r1)
    case (Ok resp)
    obtain r m where w: "do_call (pf_kernel pf) (SysWrite fd (to_bytes (pf_header_order pf) resp))
        (sv_os sv1) = (r, m)"
      "trace m = trace (sv_os sv1) @ [(SysWrite fd (to_bytes (pf_header_order pf) resp), r)]"
      by (rule do_call_obtain)
    show ?thesis
    proof (cases "ret64 r <s 0")
      case True
      with run Ok w mk show ?thesis
        by (intro no_write [of resp sv1 r]) (auto simp: on_ep_def epoll_write_def Let_def)
    next
      case False
      with run Ok w mk show ?thesis
        by (intro answered [of resp sv1 r]) (auto simp: on_ep_def epoll_write_def Let_def)
    qed
  next
    case (Err e)
    with run mk show ?thesis by (intro no_response) auto
  next
    case Panic
    with run mk show ?thesis by (intro panics) auto
  qed
qed

text \<open>A state to start from: a backend without connections and the answers the kernel will give.\<close>

definition demo_state :: "sysret list \<Rightarrow> (sysret list, u64 \<times> u64 \<times> nat) rstate" where
  "demo_state answers =
    (\<lparr>epoll_fd = 3, ep_events = [(0, 0)], max_events = 1, connections = []\<rparr>,
     \<lparr>sv_os = \<lparr>world = answers, trace = []\<rparr>, sv_prom = (0, 0, 0), sv_running = True\<rparr>)"

text \<open>C4: one request, one response.  When a request is handled without error, the response the
  handlers make is one of the builder's, the calls are calls on files that close what they open,
  followed by exactly one write, of the whole response to the client; the request counter went up by
  one and the byte counter by the length of the response, even when the kernel took fewer bytes.
  Backend and running flag are untouched, and a client reads the response back from the bytes.\<close>

theorem request_answered:
  assumes "handle_request pf config fd buf (ep, sv) = (Ok (), (ep', sv'))"
    and "counter_laws (pf_prom pf)" and "hash_order (pf_header_order pf)"
  shows "\<exists>resp new r l hs. let bytes = to_bytes (pf_header_order pf) resp; get = pr_get (pf_prom pf) in
    safe_built resp \<and> read_response bytes = Some (l, hs, resp_body resp) \<and>
    trace (sv_os sv') = trace (sv_os sv) @ new @ [(SysWrite fd bytes, r)] \<and> \<not> ret64 r <s 0 \<and>
    writes new = [] \<and> closed_fds new = opened_fds new \<and>
    get (sv_prom sv') RequestsTotal = get (sv_prom sv) RequestsTotal + 1 \<and>
    get (sv_prom sv') BytesSent = get (sv_prom sv) BytesSent + word_of_nat (length bytes) \<and>
    ep' = ep \<and> sv_running sv' = sv_running sv"
  using assms(1)
proof (cases rule: handle_request_cases)
  case (answered resp sv1 r)
  from make_response_effects [OF answered(2)] obtain new where fx: "ep' = ep" "safe_built resp"
    "\<exists>m. sv1 = sv\<lparr>sv_prom := pr_inc (pf_prom pf) RequestsTotal (sv_prom sv), sv_os := m\<rparr>"
    "trace (sv_os sv1) = trace (sv_os sv) @ new" "\<forall>(c, r) \<in> set new. file_call c"
    "closed_fds new = opened_fds new" by auto
  obtain l hs where "read_response (to_bytes (pf_header_order pf) resp) = Some (l, hs, resp_body resp)"
    using read_to_bytes [OF assms(3) safe_built_head [OF fx(2)]] by blast
  with answered fx assms(2) file_calls_only [OF fx(5)] show ?thesis
    by (intro exI [of _ resp] exI [of _ new] exI [of _ r] exI [of _ l] exI [of _ hs])
      (auto simp: Let_def counter_laws_def)
qed simp_all

theorem request_answered_witness:
  "\<exists>resp new r. let s' = snd (snd (handle_request (demo_platform (\<lambda>_ _. None))
        (demo_config [] FastPath) 7 [1, 2] (demo_state [ret_int 5]))) in
    safe_built resp \<and> trace (sv_os s') = new @ [(SysWrite 7 (to_bytes id resp), r)] \<and> writes new = [] \<and>
    pr_get plain_prom (sv_prom s') BytesSent = word_of_nat (length (to_bytes id resp))"
proof -
  let ?pf = "demo_platform (\<lambda>_ _. None)"
  let ?run = "handle_request ?pf (demo_config [] FastPath) 7 [1, 2] (demo_state [ret_int 5])"
  obtain ep sv where s: "demo_state [ret_int 5] = (ep, sv)" by fastforce
  have "fst ?run = Ok ()"
    by (simp add: handle_request_def make_response_def io_bind_def on_prom_def HttpRequest_parse_def
        io_return_def on_ep_def epoll_write_def demo_platform_def demo_state_def word_sless_alt
        Let_def)
  then have run: "handle_request ?pf (demo_config [] FastPath) 7 [1, 2] (ep, sv) =
      (Ok (), (fst (snd ?run), snd (snd ?run)))"
    by (metis prod.collapse s)
  have laws: "counter_laws (pf_prom ?pf)" "hash_order (pf_header_order ?pf)"
    by (simp_all add: demo_platform_def plain_prom_laws hash_order_def)
  have "trace (sv_os sv) = []" "pr_get plain_prom (sv_prom sv) BytesSent = 0"
    using s by (auto simp: demo_state_def plain_prom_def)
  with request_answered [OF run laws] show ?thesis
    by (fastforce simp: demo_platform_def Let_def)
qed

text \<open>C21: a request that fails.  When a handler or the write fails, the error is passed on, the request
  has been counted but no bytes have; no response was written before, and at most one write was
  tried, the one that failed.\<close>

theorem request_failed:
  assumes "handle_request pf config fd buf (ep, sv) = (Err e, (ep', sv'))"
    and "counter_laws (pf_prom pf)"
  shows "\<exists>new. trace (sv_os sv') = trace (sv_os sv) @ new \<and> closed_fds new = opened_fds new \<and>
    (writes new = [] \<or>
       (\<exists>pre bytes r. new = pre @ [(SysWrite fd bytes, r)] \<and> writes pre = [] \<and> ret64 r <s 0 \<and>
          e = WriteFailed)) \<and>
    pr_get (pf_prom pf) (sv_prom sv') RequestsTotal = pr_get (pf_prom pf) (sv_prom sv) RequestsTotal + 1 \<and>
    pr_get (pf_prom pf) (sv_prom sv') BytesSent = pr_get (pf_prom pf) (sv_prom sv) BytesSent \<and>
    ep' = ep"
  using assms(1)
proof (cases rule: handle_request_cases)
  case (no_response e')
  from make_response_effects [OF no_response(2)] obtain new where fx: "ep' = ep"
    "\<exists>m. sv' = sv\<lparr>sv_prom := pr_inc (pf_prom pf) RequestsTotal (sv_prom sv), sv_os := m\<rparr>"
    "trace (sv_os sv') = trace (sv_os sv) @ new" "\<forall>(c, r) \<in> set new. file_call c"
    "closed_fds new = opened_fds new" by auto
  with assms(2) file_calls_only [OF fx(4)] show ?thesis
    by (intro exI [of _ new]) (auto simp: counter_laws_def)
next
  case (no_write resp sv1 r)
  from make_response_effects [OF no_write(2)] obtain new where fx: "ep' = ep"
    "\<exists>m. sv1 = sv\<lparr>sv_prom := pr_inc (pf_prom pf) RequestsTotal (sv_prom sv), sv_os := m\<rparr>"
    "trace (sv_os sv1) = trace (sv_os sv) @ new" "\<forall>(c, r) \<in> set new. file_call c"
    "closed_fds new = opened_fds new" by auto
  with assms(2) no_write file_calls_only [OF fx(4)] show ?thesis
    by (intro exI [of _ "new @ [(SysWrite fd (to_bytes (pf_header_order pf) resp), r)]"])
      (auto simp: counter_laws_def)
qed simp_all

theorem request_failed_witness:
  "\<exists>new bytes. trace (sv_os (snd (snd (handle_request (demo_platform (\<lambda>_ _. None))
        (demo_config [] FastPath) 7 [1, 2] (demo_state [ret_int (-1)]))))) = new \<and>
    (writes new = [] \<or> writes new = [(7, bytes)])"
proof -
  let ?pf = "demo_platform (\<lambda>_ _. None)"
  let ?run = "handle_request ?pf (demo_config [] FastPath) 7 [1, 2] (demo_state [ret_int (-1)])"
  obtain ep sv where s: "demo_state [ret_int (-1)] = (ep, sv)" by fastforce
  have "fst ?run = Err WriteFailed"
    by (simp add: handle_request_def make_response_def io_bind_def on_prom_def HttpRequest_parse_def
        io_return_def on_ep_def epoll_write_def demo_platform_def demo_state_def word_sless_alt
        Let_def)
  then have run: "handle_request ?pf (demo_config [] FastPath) 7 [1, 2] (ep, sv) =
      (Err WriteFailed, (fst (snd ?run), snd (snd ?run)))"
    by (metis prod.collapse s)
  have laws: "counter_laws (pf_prom ?pf)"
    by (simp add: demo_platform_def plain_prom_laws)
  have "trace (sv_os sv) = []"
    using s by (auto simp: demo_state_def)
  with request_failed [OF run laws] show ?thesis
    by fastforce
qed

text \<open>C39: what the tokenizer rejects, and also a head that has only partly arrived, is answered with the
  400 response at once and in full, in both modes and without a look at the file system; the bytes
  that did arrive are dropped.\<close>

theorem incomplete_request_rejected:
  assumes "pf_httparse pf 64 buf = None \<or> (\<exists>q. pf_httparse pf 64 buf = Some (Partial, q))"
    and "do_call (pf_kernel pf) (SysWrite fd (to_bytes (pf_header_order pf) bad_request)) (sv_os sv) =
      (r, m)" and "\<not> ret64 r <s 0"
  shows "\<exists>p. handle_request pf config fd buf (ep, sv) = (Ok (), (ep, sv\<lparr>sv_os := m, sv_prom := p\<rparr>)) \<and>
    resp_status_code bad_request = 400 \<and> resp_body bad_request = as_bytes (lit ''400 Bad Request'')"
proof -
  have "HttpRequest_parse (pf_httparse pf) (pf_lower pf) buf \<in> {Err ParseFailed, Err IncompleteRequest}"
    using assms(1) by (auto simp: HttpRequest_parse_def)
  then show ?thesis
    using assms(2,3)
    by (auto simp: handle_request_def make_response_def io_bind_def on_prom_def io_return_def on_ep_def
        epoll_write_def Let_def bad_request_def HttpResponse_new_def set_body_def)
qed

theorem incomplete_request_rejected_witness:
  "\<exists>p. handle_request (demo_platform (\<lambda>_ _. Some (Partial, \<lparr>hp_method = None, hp_path = None,
        hp_version = None, hp_headers = []\<rparr>))) (demo_config [] DynamicPath) 7 [71]
      (demo_state [ret_int 90]) =
    (Ok (), (fst (demo_state []), snd (demo_state [])\<lparr>sv_os := \<lparr>world = [],
       trace = [(SysWrite 7 (to_bytes id bad_request), ret_int 90)]\<rparr>, sv_prom := p\<rparr>))"
proof -
  let ?pf = "demo_platform (\<lambda>_ _. Some (Partial, \<lparr>hp_method = None, hp_path = None,
        hp_version = None, hp_headers = []\<rparr>))"
  have "pf_httparse ?pf 64 [71] = None \<or> (\<exists>q. pf_httparse ?pf 64 [71] = Some (Partial, q))"
    and "do_call (pf_kernel ?pf) (SysWrite 7 (to_bytes (pf_header_order ?pf) bad_request))
      (sv_os (snd (demo_state [ret_int 90]))) =
      (ret_int 90, \<lparr>world = [], trace = [(SysWrite 7 (to_bytes id bad_request), ret_int 90)]\<rparr>)"
    and "\<not> ret64 (ret_int 90) <s 0"
    by (simp_all add: demo_platform_def demo_state_def word_sless_alt)
  from incomplete_request_rejected [OF this, of "demo_config [] DynamicPath" "fst (demo_state [])"]
  show ?thesis by (simp add: demo_state_def)
qed

end
