(* ===== verification/Reactor.thy ===== *)
theory Reactor
  imports Handlers Queue
begin

text \<open>
  \<open>src/worker/reactor.rs\<close>, second part: accepting connections, dispatching events, the event loop and
  the start of the server.  The two loops may run for ever and are partial functions: \<open>None\<close> is a
  loop that does not return.
\<close>

unbundle bit_operations_syntax

section \<open>The loops\<close>

definition EPOLLIN :: u32 where "EPOLLIN = 1"
definition EPOLLET :: u32 where "EPOLLET = 0x80000000"

text \<open>The inner \<open>loop\<close>: accept until accepting fails, whatever the error is.\<close>

partial_function (option) accept_loop ::
    "'w kernel \<Rightarrow> raw_fd \<Rightarrow> ('w, 'p) rstate \<Rightarrow> (unit res \<times> ('w, 'p) rstate) option" where
  "accept_loop k listen_fd s =
    (case on_ep (accept k listen_fd) s of
       (Ok client_fd, s) \<Rightarrow>
         (case on_ep (register k client_fd (EPOLLIN OR EPOLLET)) s of
            (Ok _, s) \<Rightarrow> accept_loop k listen_fd s
          | (Err e, s) \<Rightarrow> Some (Err e, s)
          | (Panic, s) \<Rightarrow> Some (Panic, s))
     | (Err _, s) \<Rightarrow> Some (Ok (), s)
     | (Panic, s) \<Rightarrow> Some (Panic, s))"

text \<open>The body of \<open>for (fd, flags) in events\<close>: the buffer is 8192 zero bytes, cut to what was read.\<close>

definition handle_event ::
    "('w, 'p) platform \<Rightarrow> server_config \<Rightarrow> raw_fd \<Rightarrow> raw_fd \<times> u32 \<Rightarrow> ('w, 'p) rstate \<Rightarrow>
     (unit res \<times> ('w, 'p) rstate) option" where
  "handle_event pf config listen_fd = (\<lambda>(fd, flags) s.
    if fd = listen_fd then accept_loop (pf_kernel pf) listen_fd s
    else if flags AND EPOLLIN \<noteq> 0 then
      Some (case on_ep (epoll_read (pf_kernel pf) fd (replicate 8192 0)) s of
              (Ok (n, buf), s) \<Rightarrow>
                if 0 < n then handle_request pf config fd (take (unat n) buf) s
                else on_ep (close_fd (pf_kernel pf) fd) s
            | (Err e, s) \<Rightarrow> on_ep (close_fd (pf_kernel pf) fd) s
            | (Panic, s) \<Rightarrow> (Panic, s))
    else Some (Ok (), s))"

fun handle_events ::
    "('w, 'p) platform \<Rightarrow> server_config \<Rightarrow> raw_fd \<Rightarrow> (raw_fd \<times> u32) list \<Rightarrow> ('w, 'p) rstate \<Rightarrow>
     (unit res \<times> ('w, 'p) rstate) option" where
  "handle_events pf config listen_fd [] s = Some (Ok (), s)"
| "handle_events pf config listen_fd (ev # evs) s =
    (case handle_event pf config listen_fd ev s of
       None \<Rightarrow> None
     | Some (Ok _, s) \<Rightarrow> handle_events pf config listen_fd evs s
     | Some (Err e, s) \<Rightarrow> Some (Err e, s)
     | Some (Panic, s) \<Rightarrow> Some (Panic, s))"

text \<open>\<open>while self.running.load(..)\<close>\<close>

partial_function (option) event_while ::
    "('w, 'p) platform \<Rightarrow> server_config \<Rightarrow> raw_fd \<Rightarrow> ('w, 'p) rstate \<Rightarrow>
     (unit res \<times> ('w, 'p) rstate) option" where
  "event_while pf config listen_fd s =
    (if \<not> sv_running (snd s) then Some (Ok (), s)
     else
       case on_ep (process_events (pf_kernel pf) 100) s of
         (Ok events, s) \<Rightarrow>
           (case handle_events pf config listen_fd events s of
              None \<Rightarrow> None
            | Some (Ok _, s) \<Rightarrow> event_while pf config listen_fd s
            | Some (Err e, s) \<Rightarrow> Some (Err e, s)
            | Some (Panic, s) \<Rightarrow> Some (Panic, s))
       | (Err e, s) \<Rightarrow> Some (Err e, s)
       | (Panic, s) \<Rightarrow> Some (Panic, s))"

text \<open>The backend is dropped when the function returns; a panic aborts without dropping anything.\<close>

definition drop_backend ::
    "('w, 'p) platform \<Rightarrow> unit res \<times> ('w, 'p) rstate \<Rightarrow> unit res \<times> ('w, 'p) server" where
  "drop_backend pf = (\<lambda>(r, (ep, sv)).
    (r, if r = Panic then sv
        else sv\<lparr>sv_os := EpollBackend_drop (pf_kernel pf) (pf_conn_order pf) (ep, sv_os sv)\<rparr>))"

definition event_loop ::
    "('w, 'p) platform \<Rightarrow> server_config \<Rightarrow> raw_fd \<Rightarrow> ('w, 'p) server \<Rightarrow>
     (unit res \<times> ('w, 'p) server) option" where
  "event_loop pf config listen_fd sv =
    (case EpollBackend_new (pf_kernel pf) 1024 (sv_os sv) of
       (Ok epoll, m) \<Rightarrow>
         map_option (drop_backend pf)
           (case on_ep (register (pf_kernel pf) listen_fd EPOLLIN) (epoll, sv\<lparr>sv_os := m\<rparr>) of
              (Ok _, s) \<Rightarrow> event_while pf config listen_fd s
            | (Err e, s) \<Rightarrow> Some (Err e, s)
            | (Panic, s) \<Rightarrow> Some (Panic, s))
     | (Err e, m) \<Rightarrow> Some (Err e, sv\<lparr>sv_os := m\<rparr>)
     | (Panic, m) \<Rightarrow> Some (Panic, sv\<lparr>sv_os := m\<rparr>))"

section \<open>The start of the server\<close>

text \<open>
  \<open>Reactor::start\<close>: the flag, the queues, the socket, one thread per worker, the event loop, and the
  wait for the workers when the event loop has returned without an error.  The workers run beside
  the loop (theory \<open>Worker\<close>); \<open>join\<close> is the wait for their threads.
\<close>

definition start ::
    "('w, 'p) platform \<Rightarrow> ('q, task) array_queue \<Rightarrow> server_config \<Rightarrow>
     ((nat \<times> work_stealing_queue) list \<Rightarrow> ('w, 'p) server \<Rightarrow> ('w, 'p) server option) \<Rightarrow>
     ('w, 'p) server \<Rightarrow> 'q list \<Rightarrow>
     (unit res \<times> ('w, 'p) server \<times> (nat \<times> work_stealing_queue) list \<times> 'q list) option" where
  "start pf aq config join sv heap =
    (let sv = sv\<lparr>sv_running := True\<rparr> in
     case WorkStealingQueue_new aq (unat (num_workers config)) 1024 heap of
       (Ok queues, heap) \<Rightarrow>
         (case create_listen_socket (pf_kernel pf) config (sv_os sv) of
            (Ok listen_fd, m) \<Rightarrow>
              (let handles = enumerate 0 queues in
               case event_loop pf config listen_fd (sv\<lparr>sv_os := m\<rparr>) of
                 None \<Rightarrow> None
               | Some (Ok _, sv) \<Rightarrow>
                   map_option (\<lambda>sv. (Ok (), sv, handles, heap)) (join handles sv)
               | Some (Err e, sv) \<Rightarrow> Some (Err e, sv, handles, heap)
               | Some (Panic, sv) \<Rightarrow> Some (Panic, sv, handles, heap))
          | (Err e, m) \<Rightarrow> Some (Err e, sv\<lparr>sv_os := m\<rparr>, [], heap)
          | (Panic, m) \<Rightarrow> Some (Panic, sv\<lparr>sv_os := m\<rparr>, [], heap))
     | (Err e, heap) \<Rightarrow> Some (Err e, sv, [], heap)
     | (Panic, heap) \<Rightarrow> Some (Panic, sv, [], heap))"

section \<open>Relations the event loop keeps\<close>

lemma accept_not_Panic: "on_ep (accept k l) s \<noteq> (Panic, t)"
  by (cases s) (auto simp: on_ep_def accept_def Let_def split: prod.splits)

lemma epoll_read_not_Panic: "on_ep (epoll_read k fd buf) s \<noteq> (Panic, t)"
  by (cases s) (auto simp: on_ep_def epoll_read_def Let_def split: prod.splits)

lemma register_not_Panic: "on_ep (register k fd ev) s \<noteq> (Panic, t)"
  by (cases s) (auto simp: on_ep_def register_def Let_def split: prod.splits)

text \<open>
  What a step of the loop may do to the state, as a relation between the state before and the result
  and state after.  A relation that composes and that each of the backend operations and the
  request handler keep is kept by the loops.
\<close>

locale event_steps =
  fixes pf :: "('w, 'p) platform" and config :: server_config and l :: raw_fd
    and Q :: "('w, 'p) rstate \<Rightarrow> unit res \<times> ('w, 'p) rstate \<Rightarrow> bool"
  assumes refl: "Q s (Ok (), s)"
    and trans: "Q s (Ok (), t) \<Longrightarrow> Q t y \<Longrightarrow> Q s y"
    and weaken: "Q s (Ok (), t) \<Longrightarrow> Q s (r, t)"
    and running: "Q s y \<Longrightarrow> sv_running (snd (snd y)) = sv_running (snd s)"
    and accept_fails: "on_ep (accept (pf_kernel pf) l) s = (Err e, t) \<Longrightarrow> Q s (Ok (), t)"
    and accept_registers: "on_ep (accept (pf_kernel pf) l) s = (Ok fd, t) \<Longrightarrow>
      on_ep (register (pf_kernel pf) fd ev) t = (r, u) \<Longrightarrow> Q s (r, u)"
    and registers: "on_ep (register (pf_kernel pf) fd ev) s = (r, t) \<Longrightarrow> Q s (r, t)"
    and reads: "on_ep (epoll_read (pf_kernel pf) fd buf) s = (n, t) \<Longrightarrow> Q s (Ok (), t)"
    and closes: "on_ep (close_fd (pf_kernel pf) fd) s = y \<Longrightarrow> Q s y"
    and requests: "handle_request pf config fd data s = y \<Longrightarrow> Q s y"
    and polls: "on_ep (process_events (pf_kernel pf) tm) s = (events, t) \<Longrightarrow> Q s (Ok (), t)"
begin

lemma then_same:
  assumes "Q s (r, t)" and "r = Ok () \<Longrightarrow> Q t y" and "r \<noteq> Ok () \<Longrightarrow> y = (r, t)"
  shows "Q s y"
  using assms trans by (cases "r = Ok ()") auto

lemma accept_loop_keeps:
  assumes "accept_loop (pf_kernel pf) l s = Some y"
  shows "Q s y"
proof -
  have "k = pf_kernel pf \<longrightarrow> l' = l \<longrightarrow> Q s y" if "accept_loop k l' s = Some y" for k l' s y
  proof (rule accept_loop.raw_induct [of "\<lambda>k l' s y. k = pf_kernel pf \<longrightarrow> l' = l \<longrightarrow> Q s y", OF _ that],
      intro impI)
    fix loop k l' and s :: "('w, 'p) rstate" and y
    assume IH: "\<And>k l' s y. loop k l' s = Some y \<Longrightarrow> k = pf_kernel pf \<longrightarrow> l' = l \<longrightarrow> Q s y"
      and body: "(case on_ep (accept k l') s of
         (Ok client_fd, s) \<Rightarrow>
           (case on_ep (register k client_fd (EPOLLIN OR EPOLLET)) s of
              (Ok _, s) \<Rightarrow> loop k l' s
            | (Err e, s) \<Rightarrow> Some (Err e, s)
            | (Panic, s) \<Rightarrow> Some (Panic, s))
       | (Err _, s) \<Rightarrow> Some (Ok (), s)
       | (Panic, s) \<Rightarrow> Some (Panic, s)) = Some y"
      and k: "k = pf_kernel pf" "l' = l"
    obtain r t where a: "on_ep (accept k l) s = (r, t)" by (rule prod.exhaust)
    show "Q s y"
    proof (cases r)
      case (Ok fd)
      obtain r2 u where b: "on_ep (register k fd (EPOLLIN OR EPOLLET)) t = (r2, u)"
        by (rule prod.exhaust)
      show ?thesis
      proof (rule then_same [OF accept_registers])
        show "on_ep (accept (pf_kernel pf) l) s = (Ok fd, t)" using a Ok k by simp
        show "on_ep (register (pf_kernel pf) fd (EPOLLIN OR EPOLLET)) t = (r2, u)" using b k by simp
        show "Q u y" if "r2 = Ok ()"
          using body a b Ok that k by (intro IH [of k l', rule_format]) simp_all
        show "y = (r2, u)" if "r2 \<noteq> Ok ()"
          using body a b Ok that k by (cases r2) simp_all
      qed
    next
      case (Err e)
      then have "y = (Ok (), t)" using body a k by simp
      with accept_fails a Err k show ?thesis by simp
    next
      case Panic
      with a accept_not_Panic [of k l s t] show ?thesis by simp
    qed
  qed
  with assms show ?thesis by blast
qed

lemma handle_event_keeps:
  assumes "handle_event pf config l ev s = Some y"
  shows "Q s y"
proof -
  obtain fd flags where ev: "ev = (fd, flags)" by (cases ev)
  obtain r t where rd: "on_ep (epoll_read (pf_kernel pf) fd (replicate 8192 0)) s = (r, t)"
    by (rule prod.exhaust)
  consider "fd = l" | "fd \<noteq> l" "flags AND EPOLLIN = 0" | "fd \<noteq> l" "flags AND EPOLLIN \<noteq> 0"
    by blast
  then show ?thesis
  proof cases
    case 1
    with assms show ?thesis
      by (simp add: handle_event_def ev accept_loop_keeps)
  next
    case 2
    with assms have "y = (Ok (), s)" by (simp add: handle_event_def ev)
    then show ?thesis by (simp add: refl)
  next
    case 3
    with assms rd have "on_ep (close_fd (pf_kernel pf) fd) t = y \<or>
        (\<exists>buf. handle_request pf config fd buf t = y)"
      using epoll_read_not_Panic [of "pf_kernel pf" fd "replicate 8192 0" s t]
      by (cases r) (auto simp: handle_event_def ev split: if_splits)
    then have "Q t y" using closes requests by blast
    with reads [OF rd] show ?thesis by (rule trans)
  qed
qed

lemma handle_events_keeps: "handle_events pf config l evs s = Some y \<Longrightarrow> Q s y"
proof (induction evs arbitrary: s)
  case (Cons ev evs)
  then obtain r t where one: "handle_event pf config l ev s = Some (r, t)"
    by (auto split: option.splits)
  show ?case
  proof (rule then_same [OF handle_event_keeps [OF one]])
    show "Q t y" if "r = Ok ()"
      using Cons.prems one that by (intro Cons.IH) simp
    show "y = (r, t)" if "r \<noteq> Ok ()"
      using Cons.prems one that by (cases r) simp_all
  qed
qed (auto intro: refl)

text \<open>The event loop, by induction on its run; it never returns without an error.\<close>

lemma event_while_keeps:
  assumes "event_while pf config l s = Some y"
  shows "Q s y \<and> (sv_running (snd s) \<longrightarrow> fst y \<noteq> Ok ())"
proof -
  let ?P = "\<lambda>pf' config' l' s y. pf' = pf \<longrightarrow> config' = config \<longrightarrow> l' = l \<longrightarrow>
    Q s y \<and> (sv_running (snd s) \<longrightarrow> fst y \<noteq> Ok ())"
  have "?P pf' config' l' s y" if "event_while pf' config' l' s = Some y" for pf' config' l' s y
  proof (rule event_while.raw_induct [of ?P, OF _ that], intro impI)
    fix loop pf' config' l' and s :: "('w, 'p) rstate" and y
    assume IH: "\<And>pf' config' l' s y. loop pf' config' l' s = Some y \<Longrightarrow> ?P pf' config' l' s y"
      and body': "(if \<not> sv_running (snd s) then Some (Ok (), s)
       else
         case on_ep (process_events (pf_kernel pf') 100) s of
           (Ok events, s) \<Rightarrow>
             (case handle_events pf' config' l' events s of
                None \<Rightarrow> None
              | Some (Ok _, s) \<Rightarrow> loop pf' config' l' s
              | Some (Err e, s) \<Rightarrow> Some (Err e, s)
              | Some (Panic, s) \<Rightarrow> Some (Panic, s))
         | (Err e, s) \<Rightarrow> Some (Err e, s)
         | (Panic, s) \<Rightarrow> Some (Panic, s)) = Some y"
      and same: "pf' = pf" "config' = config" "l' = l"
    note body = body' [unfolded same]
    show "Q s y \<and> (sv_running (snd s) \<longrightarrow> fst y \<noteq> Ok ())"
    proof (cases "sv_running (snd s)")
      case False
      with body have "y = (Ok (), s)" by simp
      with False show ?thesis by (simp add: refl)
    next
      case run: True
      obtain r t where ev: "on_ep (process_events (pf_kernel pf) 100) s = (r, t)"
        by (rule prod.exhaust)
      note poll = polls [OF ev]
      show ?thesis
      proof (cases r)
        case (Ok events)
        then obtain r2 u where hs: "handle_events pf config l events t = Some (r2, u)"
          using body run ev by (auto split: option.splits)
        note both = trans [OF poll handle_events_keeps [OF hs]]
        have "Q u y \<and> fst y \<noteq> Ok ()" if "r2 = Ok ()"
        proof -
          have "loop pf config l u = Some y" using body run ev Ok hs that by simp
          moreover have "sv_running (snd u)" using running [OF both] run by simp
          ultimately show ?thesis using IH [of pf config l u y] by simp
        qed
        moreover have "y = (r2, u)" if "r2 \<noteq> Ok ()"
          using body run ev Ok hs that by (cases r2) simp_all
        ultimately show ?thesis
          using then_same [OF both] by (cases "r2 = Ok ()") auto
      next
        case (Err e)
        then have "y = (Err e, t)" using body run ev by simp
        with weaken [OF poll] show ?thesis by simp
      next
        case Panic
        then have "y = (Panic, t)" using body run ev by simp
        with weaken [OF poll] show ?thesis by simp
      qed
    qed
  qed
  with assms show ?thesis by blast
qed

text \<open>Registering the listening socket and then looping, in a backend that has just been made.\<close>

lemma loop_body_keeps:
  assumes "(case on_ep (register (pf_kernel pf) l ev) s of
      (Ok _, s) \<Rightarrow> event_while pf config l s
    | (Err e, s) \<Rightarrow> Some (Err e, s)
    | (Panic, s) \<Rightarrow> Some (Panic, s)) = Some y"
  shows "Q s y \<and> (sv_running (snd s) \<longrightarrow> fst y \<noteq> Ok ())"
proof -
  obtain r t where reg: "on_ep (register (pf_kernel pf) l ev) s = (r, t)" by (rule prod.exhaust)
  note first = registers [OF reg]
  show ?thesis
  proof (cases r)
    case (Ok x)
    have "event_while pf config l t = Some y" using assms reg Ok by simp
    note rest = event_while_keeps [OF this]
    have "sv_running (snd t) = sv_running (snd s)" using running [OF first] by simp
    with rest Ok trans first show ?thesis by auto
  next
    case (Err e)
    then have "y = (Err e, t)" using assms reg by simp
    with Err first show ?thesis by simp
  next
    case Panic
    with reg register_not_Panic [of "pf_kernel pf" l ev s t] show ?thesis by simp
  qed
qed

end

section \<open>The connections that are open\<close>

text \<open>Read off the trace: accepted and not closed since.\<close>

fun live_step :: "raw_fd set \<Rightarrow> syscall \<times> sysret \<Rightarrow> raw_fd set" where
  "live_step S (SysAccept l, r) = (if ret32 r <s 0 then S else insert (ret32 r) S)"
| "live_step S (SysClose fd, r) = S - {fd}"
| "live_step S _ = S"

definition live :: "systrace \<Rightarrow> raw_fd set" where
  "live tr = foldl live_step {} tr"

lemma live_append [simp]: "live (tr @ new) = foldl live_step (live tr) new"
  by (simp add: live_def)

text \<open>
  The invariant between events: the table agrees with the kernel's interest list, and every open
  connection is in it.
\<close>

definition rs_inv :: "('w, 'p) rstate \<Rightarrow> bool" where
  "rs_inv s \<longleftrightarrow> (case s of (ep, sv) \<Rightarrow>
    ep_sync (ep, sv_os sv) \<and> live (trace (sv_os sv)) \<subseteq> conn_keys ep)"

text \<open>
  How a step ends: when it does not panic and did not fail to register a connection, the invariant
  holds again.  The flag is never written, and the backend stays the same instance.
\<close>

definition ends_well :: "('w, 'p) rstate \<Rightarrow> 'a res \<times> ('w, 'p) rstate \<Rightarrow> bool" where
  "ends_well s = (\<lambda>(r, s').
    sv_running (snd s') = sv_running (snd s) \<and> epoll_fd (fst s') = epoll_fd (fst s) \<and>
    (rs_inv s \<longrightarrow>
       (case s' of (ep, sv) \<Rightarrow> ep_sync (ep, sv_os sv)) \<and>
       (r \<noteq> Err AddFdFailed \<longrightarrow> rs_inv s')))"

lemma ends_well_trans:
  assumes "ends_well s (Ok x, t)" and "ends_well t y"
  shows "ends_well s y"
  using assms by (auto simp: ends_well_def)

lemma ends_well_refl: "ends_well s (Ok x, s)"
  by (auto simp: ends_well_def rs_inv_def)

lemma ends_well_res: "ends_well s (Ok x, t) \<Longrightarrow> ends_well s (r, t)"
  by (auto simp: ends_well_def)

text \<open>A call that neither accepts nor closes, nor changes the interest list.\<close>

lemma rs_inv_call:
  assumes call: "do_call k c (sv_os sv) = (r, m)" and inv: "rs_inv (ep, sv)"
    and reg: "\<And>S. reg_step (epoll_fd ep) S (c, r) = S" and live: "\<And>S. live_step S (c, r) \<subseteq> S"
  shows "rs_inv (ep, sv\<lparr>sv_os := m\<rparr>)"
proof -
  have "ep_sync (ep, m)"
    using inv by (intro ep_sync_call [OF call _ reg]) (simp add: rs_inv_def)
  moreover have "live (trace m) \<subseteq> live (trace (sv_os sv))"
    using live by (simp add: do_call_trace [OF call])
  ultimately show ?thesis
    using inv by (auto simp: rs_inv_def)
qed

lemma accept_register_ends:
  assumes "on_ep (accept k l) s = (Ok fd, t)" and "on_ep (register k fd ev) t = (r, u)"
  shows "ends_well s (r, u)"
proof -
  obtain ep sv where s: "s = (ep, sv)" by (cases s)
  obtain r1 m1 where c1: "do_call k (SysAccept l) (sv_os sv) = (r1, m1)" by fastforce
  from assms(1) have fd: "\<not> ret32 r1 <s 0" "fd = ret32 r1" "t = (ep, sv\<lparr>sv_os := m1\<rparr>)"
    by (auto simp: s on_ep_def accept_def c1 Let_def split: if_splits)
  obtain r2 m2 where c2: "do_call k (SysEpollAdd (epoll_fd ep) fd ev (fd_to_u64 fd)) m1 = (r2, m2)"
    by fastforce
  have t1: "trace m1 = trace (sv_os sv) @ [(SysAccept l, r1)]"
    and t2: "trace m2 = trace m1 @ [(SysEpollAdd (epoll_fd ep) fd ev (fd_to_u64 fd), r2)]"
    using c1 c2 by (simp_all add: do_call_trace)
  note reg = register_sync [of k fd ev, THEN keeps_preserved]
  have sync1: "ep_sync (ep, m1)" if "ep_sync (ep, sv_os sv)"
    by (rule ep_sync_call [OF c1 that]) simp
  show ?thesis
  proof (cases "ret32 r2 <s 0")
    case True
    then show ?thesis
      using assms(2) reg [of "(ep, m1)"] sync1
      by (auto simp: s fd ends_well_def rs_inv_def on_ep_def register_def c2 [unfolded fd])
  next
    case False
    then show ?thesis
      using assms(2) reg [of "(ep, m1)"] sync1
      by (auto simp: s fd ends_well_def rs_inv_def on_ep_def register_def c2 [unfolded fd] t1 t2)
  qed
qed

lemma accept_fails_ends:
  assumes "on_ep (accept k l) s = (Err e, t)"
  shows "ends_well s (Ok (), t)"
proof -
  obtain ep sv where s: "s = (ep, sv)" by (cases s)
  obtain r1 m1 where c1: "do_call k (SysAccept l) (sv_os sv) = (r1, m1)" by fastforce
  from assms(1) have neg: "ret32 r1 <s 0" "t = (ep, sv\<lparr>sv_os := m1\<rparr>)"
    by (auto simp: s on_ep_def accept_def c1 Let_def split: if_splits)
  then have "rs_inv t" if "rs_inv s"
    using rs_inv_call [OF c1, of ep] that by (simp add: s)
  then show ?thesis
    by (auto simp: ends_well_def s neg rs_inv_def)
qed

lemma live_file_calls:
  assumes "\<forall>(c, r) \<in> set new. file_call c"
  shows "foldl live_step S new \<subseteq> S"
  using assms
proof (induction new arbitrary: S)
  case (Cons x new)
  then have "foldl live_step (live_step S x) new \<subseteq> live_step S x" by simp
  moreover have "live_step S x \<subseteq> S"
    using Cons.prems by (cases x; cases "fst x") auto
  ultimately show ?case by simp
qed simp

lemma ep_sync_file_calls:
  assumes "trace m' = trace m @ new" and "\<forall>(c, r) \<in> set new. file_call c"
  shows "ep_sync (ep, m') = ep_sync (ep, m)"
  using file_calls_only(2) [OF assms(2)] by (simp add: ep_sync_def registered_def assms(1))

text \<open>File calls, then possibly the write: nothing that touches the invariant.\<close>

lemma rs_inv_served:
  assumes inv: "rs_inv (ep, sv)" and "\<forall>(c, r) \<in> set new. file_call c"
    and "trace (sv_os sv') = trace (sv_os sv) @ new @ w" and "w = [] \<or> (\<exists>fd bs r. w = [(SysWrite fd bs, r)])"
  shows "rs_inv (ep, sv')"
proof -
  have "registered (epoll_fd ep) (trace (sv_os sv')) = registered (epoll_fd ep) (trace (sv_os sv))"
    using assms(3,4) file_calls_only(2) [OF assms(2)] by (auto simp: registered_def)
  moreover have "live (trace (sv_os sv')) \<subseteq> live (trace (sv_os sv))"
    using assms(3,4) live_file_calls [OF assms(2), of "live (trace (sv_os sv))"] by auto
  ultimately show ?thesis
    using inv by (auto simp: rs_inv_def ep_sync_def)
qed

lemma handle_request_ends: "ends_well s (handle_request pf config fd buf s)"
proof -
  obtain ep sv where s: "s = (ep, sv)" by (cases s)
  obtain res ep' sv' where run: "handle_request pf config fd buf (ep, sv) = (res, (ep', sv'))"
    by (metis prod.collapse)
  then have "\<exists>new w. ep' = ep \<and> sv_running sv' = sv_running sv \<and>
      (\<forall>(c, r) \<in> set new. file_call c) \<and> trace (sv_os sv') = trace (sv_os sv) @ new @ w \<and>
      (w = [] \<or> (\<exists>fd bs r. w = [(SysWrite fd bs, r)]))"
  proof (cases rule: handle_request_cases)
    case (no_response e)
    from make_response_effects [OF no_response(2)] show ?thesis by fastforce
  next
    case panics
    from make_response_effects [OF panics(2)] show ?thesis by fastforce
  next
    case (no_write resp sv1 r)
    with make_response_effects [OF no_write(2)] show ?thesis by fastforce
  next
    case (answered resp sv1 r)
    with make_response_effects [OF answered(2)] show ?thesis by fastforce
  qed
  then have "ep' = ep" "sv_running sv' = sv_running sv" "rs_inv (ep, sv) \<Longrightarrow> rs_inv (ep, sv')"
    using rs_inv_served by blast+
  then show ?thesis
    unfolding s run by (auto simp: ends_well_def rs_inv_def)
qed

lemma close_fd_ends: "ends_well s (on_ep (close_fd k fd) s)"
proof -
  obtain ep sv where s: "s = (ep, sv)" by (cases s)
  obtain res ep' m where run: "close_fd k fd (ep, sv_os sv) = (res, (ep', m))"
    by (metis prod.collapse)
  have sync: "ep_sync (ep', m)" if "ep_sync (ep, sv_os sv)"
    using keeps_preserved [OF close_fd_sync that, of k fd] run by simp
  have wf: "hm_wf (connections ep)" if "ep_sync (ep, sv_os sv)"
    using that by (simp add: ep_sync_def)
  from run show ?thesis
  proof (cases rule: close_fd_cases)
    case (not_deleted r)
    with run sync show ?thesis
      by (auto simp: s on_ep_def ends_well_def rs_inv_def)
  next
    case (closed r r')
    with run sync wf show ?thesis
      by (auto simp: s on_ep_def ends_well_def rs_inv_def)
  qed
qed

lemma epoll_read_ends:
  assumes "on_ep (epoll_read k fd buf) s = (r, t)"
  shows "ends_well s (Ok (), t) \<and> r \<noteq> Panic"
proof -
  obtain ep sv where s: "s = (ep, sv)" by (cases s)
  obtain r1 m1 where c: "do_call k (SysRead fd (word_of_nat (length buf))) (sv_os sv) = (r1, m1)"
    by fastforce
  have t: "t = (ep, sv\<lparr>sv_os := m1\<rparr>)" and "r \<noteq> Panic"
    using assms by (auto simp: s on_ep_def epoll_read_def c Let_def split: if_splits)
  moreover have "rs_inv t" if "rs_inv s"
    using rs_inv_call [OF c, of ep] that by (simp add: s t)
  ultimately show ?thesis
    by (auto simp: ends_well_def rs_inv_def s)
qed

lemma process_events_ends:
  assumes "on_ep (process_events k tm) s = (r, t)"
  shows "ends_well s (Ok (), t)"
proof -
  obtain ep sv where s: "s = (ep, sv)" by (cases s)
  let ?c = "SysEpollWait (epoll_fd ep) (ucast (max_events ep)) tm"
  obtain r1 m1 where c: "do_call k ?c (sv_os sv) = (r1, m1)" by fastforce
  have t: "t = (ep\<lparr>ep_events := overlay (out_events r1) (ep_events ep)\<rparr>, sv\<lparr>sv_os := m1\<rparr>)"
    using assms by (auto simp: s on_ep_def process_events_def io_bind_def wait_def c Let_def
        split: if_splits)
  have "rs_inv (ep, sv\<lparr>sv_os := m1\<rparr>)" if "rs_inv s"
    using rs_inv_call [OF c, of ep] that by (simp add: s)
  then have "rs_inv t" if "rs_inv s"
    using that by (auto simp: t rs_inv_def ep_sync_def)
  then show ?thesis
    by (auto simp: ends_well_def rs_inv_def s t)
qed

lemma live_closes:
  "accepted_fds new = [] \<Longrightarrow> foldl live_step S new = S - set (closed_fds new)"
proof (induction new arbitrary: S)
  case (Cons x new)
  then show ?case by (cases x; cases "fst x") (auto split: if_splits)
qed simp

section \<open>How the server ends\<close>

lemma register_ends:
  assumes "on_ep (register k fd ev) s = (r, t)"
  shows "ends_well s (r, t) \<and> r \<noteq> Panic"
proof -
  obtain ep sv where s: "s = (ep, sv)" by (cases s)
  obtain r2 m2 where c: "do_call k (SysEpollAdd (epoll_fd ep) fd ev (fd_to_u64 fd)) (sv_os sv) = (r2, m2)"
    by fastforce
  have tr: "trace m2 = trace (sv_os sv) @ [(SysEpollAdd (epoll_fd ep) fd ev (fd_to_u64 fd), r2)]"
    using c by (simp add: do_call_trace)
  have sync: "ep_sync (snd (register k fd ev (ep, sv_os sv)))" if "ep_sync (ep, sv_os sv)"
    using keeps_preserved [OF register_sync that] .
  show ?thesis
  proof (cases "ret32 r2 <s 0")
    case True
    with assms sync c show ?thesis
      by (auto simp: s ends_well_def rs_inv_def on_ep_def register_def)
  next
    case False
    with assms sync c show ?thesis
      by (auto simp: s ends_well_def rs_inv_def on_ep_def register_def tr)
  qed
qed

text \<open>The invariant is such a relation, and the loops keep it.\<close>

interpretation ew: event_steps pf config l ends_well
  for pf :: "('w, 'p) platform" and config and l
proof
  show "ends_well s (Ok (), s)" for s :: "('w, 'p) rstate"
    by (rule ends_well_refl)
  show "ends_well s y" if "ends_well s (Ok (), t)" "ends_well t y"
    for s t :: "('w, 'p) rstate" and y :: "unit res \<times> ('w, 'p) rstate"
    using that by (rule ends_well_trans)
  show "ends_well s (r, t)" if "ends_well s (Ok (), t)"
    for s t :: "('w, 'p) rstate" and r :: "unit res"
    using that by (rule ends_well_res)
  show "sv_running (snd (snd y)) = sv_running (snd s)" if "ends_well s y"
    for s :: "('w, 'p) rstate" and y :: "unit res \<times> ('w, 'p) rstate"
    using that by (auto simp: ends_well_def)
qed (use accept_fails_ends accept_register_ends register_ends epoll_read_ends close_fd_ends
    handle_request_ends process_events_ends in \<open>metis (no_types)\<close>)+

text \<open>C1: how the event loop ends.  While the running flag is set, which nothing in the loop changes, it
  can only return with an error.  When it has made its epoll instance, it then asks for the deletion
  of exactly the descriptors the kernel still watched, closes each one the kernel let go of, and
  closes the instance last.  No connection stays open except one whose deletion failed, unless the
  error was the failure to register a connection that had just been accepted.\<close>

theorem event_loop_ends:
  assumes "event_loop pf config l sv = Some (r, sv')" and "sv_running sv" and "r \<noteq> Panic"
    and "hash_order (pf_conn_order pf)" and "live (trace (sv_os sv)) = {}"
  shows "\<exists>e. r = Err e \<and> sv_running sv' \<and>
    (e = EpollCreateFailed \<or>
     (\<exists>tr new epfd. trace (sv_os sv') = tr @ new \<and> set (del_asked new) = registered epfd tr \<and>
        closed_fds new = del_done new @ [epfd] \<and>
        (e = AddFdFailed \<or> live (trace (sv_os sv')) \<subseteq> set (del_asked new) - set (del_done new))))"
proof -
  obtain n m where new: "EpollBackend_new (pf_kernel pf) 1024 (sv_os sv) = (n, m)" by fastforce
  show ?thesis
  proof (cases n)
    case (Err e)
    then have "e = EpollCreateFailed" using new
      by (auto simp: EpollBackend_new_def Let_def split: prod.splits if_splits)
    with assms new Err show ?thesis by (auto simp: event_loop_def)
  next
    case Panic
    with new show ?thesis by (auto simp: EpollBackend_new_def Let_def split: prod.splits if_splits)
  next
    case (Ok epoll)
    let ?s = "(epoll, sv\<lparr>sv_os := m\<rparr>)"
    obtain y where body: "(case on_ep (register (pf_kernel pf) l EPOLLIN) ?s of
        (Ok _, s) \<Rightarrow> event_while pf config l s
      | (Err e, s) \<Rightarrow> Some (Err e, s)
      | (Panic, s) \<Rightarrow> Some (Panic, s)) = Some y" and y: "drop_backend pf y = (r, sv')"
      using assms(1) new Ok by (auto simp: event_loop_def split: option.splits)
    note ends = ew.loop_body_keeps [OF body]
    obtain ep2 sv2 where y2: "y = (r, (ep2, sv2))"
      using y by (cases y) (auto simp: drop_backend_def)
    obtain e where e: "r = Err e"
      using ends assms(2,3) y2 by (cases r) auto
    have "live (trace m) = {}"
      using assms(5) new Ok
      by (auto simp: EpollBackend_new_def Let_def do_call_trace split: prod.splits if_splits)
    then have "rs_inv ?s"
      using EpollBackend_new_sync [of "pf_kernel pf" 1024 "sv_os sv" epoll m] new Ok
      by (simp add: rs_inv_def)
    with ends y2 have sync: "ep_sync (ep2, sv_os sv2)" and run: "sv_running sv2 = sv_running sv"
      and inv: "e \<noteq> AddFdFailed \<longrightarrow> rs_inv (ep2, sv2)"
      by (auto simp: ends_well_def e)
    have sv': "sv' = sv2\<lparr>sv_os := EpollBackend_drop (pf_kernel pf) (pf_conn_order pf) (ep2, sv_os sv2)\<rparr>"
      using y y2 e by (auto simp: drop_backend_def)
    have "hm_wf (connections ep2)" using sync by (simp add: ep_sync_def)
    from EpollBackend_drop_trace [OF assms(4) this, of "pf_kernel pf" "sv_os sv2"] obtain new where
      "trace (sv_os sv') = trace (sv_os sv2) @ new" "set (del_asked new) = conn_keys ep2"
      "closed_fds new = del_done new @ [epoll_fd ep2]" "accepted_fds new = []"
      by (auto simp: sv')
    then show ?thesis
      using e run assms(2) sync inv sv' live_closes [of new]
      by (intro exI [of _ e]) (fastforce simp: ep_sync_def rs_inv_def)
  qed
qed

text \<open>A server whose kernel has these answers to give, with the flag set.\<close>

definition demo_server :: "sysret list \<Rightarrow> (sysret list, u64 \<times> u64 \<times> nat) server" where
  "demo_server answers =
    \<lparr>sv_os = \<lparr>world = answers, trace = []\<rparr>, sv_prom = (0, 0, 0), sv_running = True\<rparr>"

lemma demo_server_sel [simp]:
  "sv_running (demo_server a)" "trace (sv_os (demo_server a)) = []" "world (sv_os (demo_server a)) = a"
  by (simp_all add: demo_server_def)

theorem event_loop_ends_witness:
  "\<exists>sv' tr new epfd. event_loop (demo_platform (\<lambda>_ _. None)) (demo_config [] FastPath) 4
      (demo_server [ret_int 3, ret_int 0, ret_int (-1)]) = Some (Err EpollWaitFailed, sv') \<and>
    sv_running sv' \<and> trace (sv_os sv') = tr @ new \<and> set (del_asked new) = registered epfd tr \<and>
    live (trace (sv_os sv')) \<subseteq> set (del_asked new) - set (del_done new)"
proof -
  let ?pf = "demo_platform (\<lambda>_ _. None)" and ?c = "demo_config [] FastPath"
  let ?sv = "demo_server [ret_int 3, ret_int 0, ret_int (-1)]"
  have "map_option fst (event_loop ?pf ?c 4 ?sv) = Some (Err EpollWaitFailed)"
    by (simp add: event_loop_def EpollBackend_new_def demo_platform_def demo_server_def on_ep_def
        register_def word_sless_alt event_while.simps [of _ _ _ "(_, _)"] process_events_def
        io_bind_def wait_def drop_backend_def Let_def)
  then obtain sv' where run: "event_loop ?pf ?c 4 ?sv = Some (Err EpollWaitFailed, sv')"
    by auto
  have "hash_order (pf_conn_order ?pf)" "live (trace (sv_os ?sv)) = {}"
    by (simp_all add: demo_platform_def hash_order_def live_def)
  from event_loop_ends [OF run _ _ this] run show ?thesis by auto
qed

section \<open>Accepting\<close>

text \<open>The kernel has these connections to give, takes each into the interest list, and then no more.\<close>

fun backlog :: "'w kernel \<Rightarrow> raw_fd \<Rightarrow> raw_fd \<Rightarrow> raw_fd list \<Rightarrow> 'w os \<Rightarrow> bool" where
  "backlog k l epfd [] m \<longleftrightarrow> ret32 (fst (do_call k (SysAccept l) m)) <s 0"
| "backlog k l epfd (fd # fds) m \<longleftrightarrow>
    (let (r, m) = do_call k (SysAccept l) m;
         (r', m) = do_call k (SysEpollAdd epfd fd 0x80000001 (fd_to_u64 fd)) m in
     ret32 r = fd \<and> \<not> fd <s 0 \<and> \<not> ret32 r' <s 0 \<and> backlog k l epfd fds m)"

fun accept_calls :: "raw_fd \<Rightarrow> raw_fd \<Rightarrow> raw_fd list \<Rightarrow> syscall list" where
  "accept_calls l epfd [] = [SysAccept l]"
| "accept_calls l epfd (fd # fds) =
    SysAccept l # SysEpollAdd epfd fd 0x80000001 (fd_to_u64 fd) # accept_calls l epfd fds"

text \<open>C12: accepting drains the backlog.  When the kernel has a finite number of connections waiting and
  takes them into the interest list, the accept loop returns, without an error; it has made exactly
  one accept and one edge-triggered registration for input per connection, in order, and one last
  accept; and the table has gained exactly those connections, with empty buffers.\<close>

theorem accept_drains:
  assumes "backlog k l (epoll_fd ep) fds (sv_os sv)"
  shows "\<exists>ep' m new. accept_loop k l (ep, sv) = Some (Ok (), (ep', sv\<lparr>sv_os := m\<rparr>)) \<and>
    trace m = trace (sv_os sv) @ new \<and> map fst new = accept_calls l (epoll_fd ep) fds \<and>
    conn_keys ep' = conn_keys ep \<union> set fds \<and>
    (\<forall>fd. hm_get (connections ep') fd =
       (if fd \<in> set fds then Some new_connection else hm_get (connections ep) fd))"
  using assms
proof (induction fds arbitrary: ep sv)
  case Nil
  obtain r m where c: "do_call k (SysAccept l) (sv_os sv) = (r, m)" by fastforce
  with Nil have "accept_loop k l (ep, sv) = Some (Ok (), (ep, sv\<lparr>sv_os := m\<rparr>))"
    by (subst accept_loop.simps) (simp add: on_ep_def accept_def)
  then show ?case using do_call_trace [OF c] by auto
next
  case (Cons fd fds)
  obtain r m where c: "do_call k (SysAccept l) (sv_os sv) = (r, m)" by fastforce
  obtain r2 m2 where c2: "do_call k (SysEpollAdd (epoll_fd ep) fd 0x80000001 (fd_to_u64 fd)) m = (r2, m2)"
    by fastforce
  let ?ep = "ep\<lparr>connections := hm_insert fd new_connection (connections ep)\<rparr>"
  have flags: "EPOLLIN OR EPOLLET = 0x80000001" by (simp add: EPOLLIN_def EPOLLET_def)
  have step: "accept_loop k l (ep, sv) = accept_loop k l (?ep, sv\<lparr>sv_os := m2\<rparr>)"
    using Cons.prems c c2
    by (subst accept_loop.simps) (simp add: on_ep_def accept_def register_def flags)
  have "backlog k l (epoll_fd ?ep) fds (sv_os (sv\<lparr>sv_os := m2\<rparr>))"
    using Cons.prems c c2 by simp
  from Cons.IH [OF this] obtain ep' m' new where IH:
    "accept_loop k l (?ep, sv\<lparr>sv_os := m2\<rparr>) = Some (Ok (), (ep', sv\<lparr>sv_os := m'\<rparr>))"
    "trace m' = trace m2 @ new" "map fst new = accept_calls l (epoll_fd ep) fds"
    "conn_keys ep' = conn_keys ?ep \<union> set fds"
    "\<forall>fd. hm_get (connections ep') fd =
       (if fd \<in> set fds then Some new_connection else hm_get (connections ?ep) fd)"
    by auto
  show ?case
    using IH step do_call_trace [OF c] do_call_trace [OF c2]
    by (intro exI [of _ ep'] exI [of _ m'] exI [of _ "(SysAccept l, r) #
          (SysEpollAdd (epoll_fd ep) fd 0x80000001 (fd_to_u64 fd), r2) # new"])
      (auto simp: hm.get_insert)
qed

theorem accept_drains_witness:
  "\<exists>ep' m. accept_loop script 4 (demo_state [ret_int 7, ret_int 0, ret_int (-1)]) =
      Some (Ok (), (ep', snd (demo_state [])\<lparr>sv_os := m\<rparr>)) \<and>
    map fst (trace m) = [SysAccept 4, SysEpollAdd 3 7 0x80000001 (fd_to_u64 7), SysAccept 4] \<and>
    conn_keys ep' = {7}"
proof -
  let ?s = "demo_state [ret_int 7, ret_int 0, ret_int (-1)]"
  have sel: "epoll_fd (fst ?s) = 3" "connections (fst ?s) = []" "trace (sv_os (snd ?s)) = []"
    by (simp_all add: demo_state_def)
  have "backlog script 4 (epoll_fd (fst ?s)) [7] (sv_os (snd ?s))"
    by (simp add: demo_state_def word_sless_alt)
  from accept_drains [OF this] sel show ?thesis
    by (auto simp: demo_state_def conn_keys_def hm.get_empty)
qed

section \<open>Dispatching\<close>

text \<open>C32: what an event on a connection does.  Without the input flag, nothing (a hang-up alone is
  ignored).  With it, one read of at most 8192 bytes: the bytes read are handled as one request; at
  the end of the stream or on an error the connection is closed.  Nothing reads again before the
  next edge.\<close>

theorem event_dispatch:
  assumes "fd \<noteq> l" and "do_call (pf_kernel pf) (SysRead fd 8192) (sv_os sv) = (r, m)"
    and "\<not> ret64 r <s 0 \<Longrightarrow> unat (ret64 r) = length (out_bytes r)" and "length (out_bytes r) \<le> 8192"
  shows "handle_event pf config l (fd, flags) (ep, sv) = Some
    (if flags AND 1 = 0 then (Ok (), (ep, sv))
     else if ret64 r <s 0 \<or> ret64 r = 0 then
       on_ep (close_fd (pf_kernel pf) fd) (ep, sv\<lparr>sv_os := m\<rparr>)
     else handle_request pf config fd (out_bytes r) (ep, sv\<lparr>sv_os := m\<rparr>))"
proof (cases "flags AND 1 = 0")
  case True
  with assms(1) show ?thesis by (simp add: handle_event_def EPOLLIN_def)
next
  case False
  have "take (unat (ret64 r)) (overlay (out_bytes r) (replicate 8192 0)) = out_bytes r"
    if "\<not> ret64 r <s 0"
    using assms(3) [OF that] assms(4) by (simp add: take_overlay)
  with False assms(1,2) show ?thesis
    by (auto simp: handle_event_def EPOLLIN_def on_ep_def epoll_read_def Let_def word_neq_0_conv)
qed

theorem event_dispatch_witness:
  "handle_event (demo_platform (\<lambda>_ _. None)) (demo_config [] FastPath) 4 (7, 1)
      (demo_state [ret_int 0, ret_int 0, ret_int 0]) = Some
     (on_ep (close_fd script 7) (fst (demo_state []), (snd (demo_state []))\<lparr>sv_os :=
        \<lparr>world = [ret_int 0, ret_int 0], trace = [(SysRead 7 8192, ret_int 0)]\<rparr>\<rparr>))"
proof -
  have "do_call (pf_kernel (demo_platform (\<lambda>_ _. None))) (SysRead 7 8192)
      (sv_os (snd (demo_state [ret_int 0, ret_int 0, ret_int 0]))) =
      (ret_int 0, \<lparr>world = [ret_int 0, ret_int 0], trace = [(SysRead 7 8192, ret_int 0)]\<rparr>)"
    by (simp add: demo_platform_def demo_state_def)
  from event_dispatch [OF _ this, of 4 "demo_config [] FastPath" 1 "fst (demo_state [])"] show ?thesis
    by (simp add: demo_state_def demo_platform_def)
qed

lemma handle_events_append:
  "handle_events pf config l xs s = Some (Ok (), t) \<Longrightarrow>
    handle_events pf config l (xs @ ys) s = handle_events pf config l ys t"
  by (induction xs arbitrary: s) (auto split: option.splits res.splits)

text \<open>C38: one failed request stops the server.  When the handling of an event fails, the event loop ends
  with that error at once: the events reported after it in the same round are never looked at, and
  no other connection is served again.\<close>

theorem failed_event_stops_loop:
  assumes "sv_running (snd s)"
    and "on_ep (process_events (pf_kernel pf) 100) s = (Ok (before @ ev # after), t)"
    and "handle_events pf config l before t = Some (Ok (), u)"
    and "handle_event pf config l ev u = Some (Err e, v)"
  shows "event_while pf config l s = Some (Err e, v)"
proof -
  have "handle_events pf config l (before @ ev # after) t = Some (Err e, v)"
    using handle_events_append [OF assms(3), of "ev # after"] assms(4) by simp
  then show ?thesis
    using assms(1,2) by (subst event_while.simps) simp
qed

text \<open>The request is \<open>GET /\<close>, and the file behind it is empty.\<close>

definition get_root :: httparse where
  "get_root n bs = Some (Complete (length bs), \<lparr>hp_method = Some (lit ''GET''), hp_path = Some [47],
     hp_version = Some 1, hp_headers = []\<rparr>)"

theorem failed_event_stops_loop_witness:
  "\<exists>v. event_while (demo_platform get_root) (demo_config [] FastPath) 4
     (demo_state [(ret_int 1)\<lparr>out_events := [(1, 7)]\<rparr>, (ret_int 5)\<lparr>out_bytes := [1, 2, 3, 4, 5]\<rparr>,
        ret_int 0, ret_int 5, ret_int 0, ret_int 0]) = Some (Err EmptyMmap, v)"
proof -
  let ?pf = "demo_platform get_root" and ?c = "demo_config [] FastPath"
  let ?rest = "[(ret_int 5)\<lparr>out_bytes := [1, 2, 3, 4, 5]\<rparr>, ret_int 0, ret_int 5, ret_int 0, ret_int 0]"
  let ?s = "demo_state ((ret_int 1)\<lparr>out_events := [(1, 7)]\<rparr> # ?rest)"
  let ?tr = "[(SysEpollWait 3 1 100, (ret_int 1)\<lparr>out_events := [(1, 7)]\<rparr>)]"
  let ?t = "((fst ?s)\<lparr>ep_events := [(1, 7)]\<rparr>, (snd ?s)\<lparr>sv_os := \<lparr>world = ?rest, trace = ?tr\<rparr>\<rparr>)"
  have s: "sv_running (snd ?s)" by (simp add: demo_state_def)
  have ev: "on_ep (process_events (pf_kernel ?pf) 100) ?s = (Ok ([] @ (7, 1) # []), ?t)"
    by (simp add: on_ep_def process_events_def io_bind_def wait_def demo_platform_def demo_state_def
        word_sless_alt overlay_def u64_to_fd_def Let_def)
  have "map_option fst (handle_event ?pf ?c 4 (7, 1) ?t) = Some (Err EmptyMmap)"
    by (simp add: handle_event_def EPOLLIN_def on_ep_def epoll_read_def demo_platform_def
        demo_state_def overlay_def word_sless_alt Let_def handle_request_def io_bind_def on_prom_def
        make_response_def get_root_def HttpRequest_parse_def demo_config_def on_os_def
        handle_static_file_def io_res_def slice_from_1 path_exists_def MmapFile_new_def drop_file_def)
  then obtain v where h: "handle_event ?pf ?c 4 (7, 1) ?t = Some (Err EmptyMmap, v)" by auto
  show ?thesis
    using failed_event_stops_loop [OF s ev _ h] by auto
qed

section \<open>Starting\<close>

lemma event_loop_running:
  assumes "event_loop pf config l sv = Some (r, sv')" and "sv_running sv"
  shows "r \<noteq> Ok () \<and> sv_running sv'"
proof -
  obtain n m where new: "EpollBackend_new (pf_kernel pf) 1024 (sv_os sv) = (n, m)" by fastforce
  show ?thesis
  proof (cases n)
    case (Ok epoll)
    then obtain y where body: "(case on_ep (register (pf_kernel pf) l EPOLLIN) (epoll, sv\<lparr>sv_os := m\<rparr>) of
        (Ok _, s) \<Rightarrow> event_while pf config l s
      | (Err e, s) \<Rightarrow> Some (Err e, s)
      | (Panic, s) \<Rightarrow> Some (Panic, s)) = Some y" and y: "drop_backend pf y = (r, sv')"
      using assms(1) new by (auto simp: event_loop_def split: option.splits)
    from ew.loop_body_keeps [OF body] y assms(2) show ?thesis
      by (cases y) (auto simp: drop_backend_def ends_well_def split: if_splits)
  qed (use assms new in \<open>auto simp: event_loop_def\<close>)
qed

text \<open>C16: the server runs until it fails.  Whatever the kernel does, \<open>start\<close> never returns without an
  error, so the wait for the workers is never reached, and the running flag the workers watch is
  still set when it returns.  Either the socket failed and no worker was started, or one worker was
  started per configured worker, numbered from 0, each with its own queue first and then all the
  others, and nothing is in any queue.\<close>

theorem start_runs_until_error:
  assumes "array_queue_laws aq ok items"
    and "start pf aq config join sv [] = Some (res, sv', handles, heap)"
  shows "res \<noteq> Ok () \<and> sv_running sv' \<and> (\<forall>q \<in> set heap. items q = []) \<and>
    (handles = [] \<or> (let n = unat (num_workers config) in
       map fst handles = [0 ..< n] \<and> length heap = n \<and>
       (\<forall>(i, w) \<in> set handles. wsq_refs w = i # filter (\<lambda>j. i \<noteq> j) [0 ..< n])))"
proof -
  let ?n = "unat (num_workers config)"
  from WorkStealingQueue_new_spec [OF assms(1), of 1024 ?n] obtain ws h where w:
    "WorkStealingQueue_new aq ?n 1024 [] = (Ok ws, h)" "length ws = ?n" "length h = ?n"
    "\<forall>q \<in> set h. items q = []" "\<forall>i < ?n. wsq_refs (ws ! i) = steal_order ?n i"
    by auto
  obtain r m where sock: "create_listen_socket (pf_kernel pf) config (sv_os sv) = (r, m)" by fastforce
  have wired: "map fst (enumerate 0 ws) = [0 ..< ?n]"
      "\<forall>(i, w) \<in> set (enumerate 0 ws). wsq_refs w = i # filter (\<lambda>j. i \<noteq> j) [0 ..< ?n]"
    using w(2,5) by (auto simp: in_set_enumerate_eq steal_order_def)
  show ?thesis
  proof (cases r)
    case (Ok fd)
    obtain r2 sv2 where loop: "event_loop pf config fd (sv\<lparr>sv_running := True, sv_os := m\<rparr>) = Some (r2, sv2)"
      using assms(2) w(1) sock Ok by (auto simp: start_def Let_def split: option.splits)
    note running = event_loop_running [OF loop, simplified]
    have "res = r2 \<and> sv' = sv2 \<and> handles = enumerate 0 ws \<and> heap = h"
      using assms(2) w(1) sock Ok loop running
      by (cases r2) (auto simp: start_def Let_def)
    then show ?thesis
      using running wired w(3,4) by (simp add: Let_def)
  next
    case (Err e)
    with assms(2) w sock show ?thesis by (auto simp: start_def Let_def)
  next
    case Panic
    with assms(2) w sock show ?thesis by (auto simp: start_def Let_def)
  qed
qed

theorem start_runs_until_error_witness:
  "\<exists>sv' heap. start (demo_platform get_root) list_queue (demo_config (lit ''localhost'') FastPath)
      (\<lambda>_ sv. Some sv) (demo_server [ret_int 3, ret_int 0, ret_int 0]) ([] :: (nat \<times> task list) list) =
      Some (Err BadHost, sv', [], heap) \<and> sv_running sv' \<and> (\<forall>q \<in> set heap. snd q = [])"
proof -
  let ?run = "start (demo_platform get_root) list_queue (demo_config (lit ''localhost'') FastPath)
      (\<lambda>_ sv. Some sv) (demo_server [ret_int 3, ret_int 0, ret_int 0]) ([] :: (nat \<times> task list) list)"
  have laws: "array_queue_laws (list_queue :: (nat \<times> task list, task) array_queue) list_queue_ok snd"
    by (rule list_queue_laws)
  have "\<exists>sv' heap. ?run = Some (Err BadHost, sv', [], heap)"
    by (simp add: start_def Let_def demo_config_def demo_platform_def demo_server_def
        create_listen_socket_def parse_ipv4_def parse_octet_def lit_def word_sless_alt
        WorkStealingQueue_new_def LockFreeQueue_new_def list_queue_def)
  then obtain sv' heap where run: "?run = Some (Err BadHost, sv', [], heap)" by blast
  from start_runs_until_error [OF laws run] run show ?thesis by auto
qed

section \<open>Accounting\<close>

text \<open>The bytes of the writes that succeeded.\<close>

fun written_bytes :: "systrace \<Rightarrow> nat" where
  "written_bytes [] = 0"
| "written_bytes ((SysWrite fd bs, r) # t) = (if ret64 r <s 0 then 0 else length bs) + written_bytes t"
| "written_bytes (_ # t) = written_bytes t"

lemma written_bytes_append [simp]: "written_bytes (s @ t) = written_bytes s + written_bytes t"
  by (induction s rule: written_bytes.induct) simp_all

lemma written_bytes_none: "writes new = [] \<Longrightarrow> written_bytes new = 0"
  by (induction new rule: writes.induct) simp_all

text \<open>
  What a step counts: each write counts one request, plus at most one more when the step fails; and
  the bytes of the writes that succeeded, modulo 2 to the 64.
\<close>

definition counted ::
    "('w, 'p) platform \<Rightarrow> ('w, 'p) rstate \<Rightarrow> unit res \<times> ('w, 'p) rstate \<Rightarrow> bool" where
  "counted pf s = (\<lambda>(r, t).
    sv_running (snd t) = sv_running (snd s) \<and>
    (\<exists>new d. trace (sv_os (snd t)) = trace (sv_os (snd s)) @ new \<and> d \<le> 1 \<and> (r = Ok () \<longrightarrow> d = 0) \<and>
       (counter_laws (pf_prom pf) \<longrightarrow>
          pr_get (pf_prom pf) (sv_prom (snd t)) RequestsTotal =
            pr_get (pf_prom pf) (sv_prom (snd s)) RequestsTotal + word_of_nat (length (writes new) + d) \<and>
          pr_get (pf_prom pf) (sv_prom (snd t)) BytesSent =
            pr_get (pf_prom pf) (sv_prom (snd s)) BytesSent + word_of_nat (written_bytes new))))"

lemma counted_trans:
  assumes "counted pf s (Ok (), t)" and "counted pf t y"
  shows "counted pf s y"
proof -
  obtain r u where y: "y = (r, u)" by (cases y)
  from assms(1) obtain new where 1: "trace (sv_os (snd t)) = trace (sv_os (snd s)) @ new"
    "counter_laws (pf_prom pf) \<longrightarrow>
          pr_get (pf_prom pf) (sv_prom (snd t)) RequestsTotal =
            pr_get (pf_prom pf) (sv_prom (snd s)) RequestsTotal + word_of_nat (length (writes new)) \<and>
          pr_get (pf_prom pf) (sv_prom (snd t)) BytesSent =
            pr_get (pf_prom pf) (sv_prom (snd s)) BytesSent + word_of_nat (written_bytes new)"
    by (auto simp: counted_def)
  from assms(2) obtain new' d where 2: "trace (sv_os (snd u)) = trace (sv_os (snd t)) @ new'"
    "d \<le> 1" "r = Ok () \<longrightarrow> d = 0"
    "counter_laws (pf_prom pf) \<longrightarrow>
          pr_get (pf_prom pf) (sv_prom (snd u)) RequestsTotal =
            pr_get (pf_prom pf) (sv_prom (snd t)) RequestsTotal + word_of_nat (length (writes new') + d) \<and>
          pr_get (pf_prom pf) (sv_prom (snd u)) BytesSent =
            pr_get (pf_prom pf) (sv_prom (snd t)) BytesSent + word_of_nat (written_bytes new')"
    by (auto simp: counted_def y)
  have "sv_running (snd u) = sv_running (snd s)"
    using assms by (simp add: counted_def y)
  with 1 2 show ?thesis
    unfolding counted_def y prod.case
    by (intro conjI exI [of _ "new @ new'"] exI [of _ d]) (auto simp: algebra_simps)
qed

text \<open>A step that writes nothing and leaves the metrics alone.\<close>

lemma counted_silent:
  assumes "trace (sv_os (snd t)) = trace (sv_os (snd s)) @ new" and "writes new = []"
    and "sv_prom (snd t) = sv_prom (snd s)" and "sv_running (snd t) = sv_running (snd s)"
  shows "counted pf s (r, t)"
  using assms written_bytes_none [OF assms(2)]
  by (auto simp: counted_def intro!: exI [of _ new] exI [of _ 0])

lemma counted_call:
  assumes "on_ep f s = (r, t)"
    and "\<And>ep m res ep' m'. f (ep, m) = (res, (ep', m')) \<Longrightarrow>
      \<exists>new. trace m' = trace m @ new \<and> writes new = []"
  shows "counted pf s (r', t)"
proof -
  obtain ep sv where s: "s = (ep, sv)" by (cases s)
  obtain res ep' m' where run: "f (ep, sv_os sv) = (res, (ep', m'))" by (metis prod.collapse)
  from assms(2) [OF run] obtain new where "trace m' = trace (sv_os sv) @ new" "writes new = []"
    by blast
  with assms(1) run show ?thesis
    by (intro counted_silent [where new = new]) (auto simp: s on_ep_def)
qed

lemma silent_ops:
  "accept k l (ep, m) = (ra, (ep', m')) \<Longrightarrow> \<exists>new. trace m' = trace m @ new \<and> writes new = []"
  "register k fd ev (ep, m) = (rr, (ep', m')) \<Longrightarrow> \<exists>new. trace m' = trace m @ new \<and> writes new = []"
  "epoll_read k fd buf (ep, m) = (re, (ep', m')) \<Longrightarrow> \<exists>new. trace m' = trace m @ new \<and> writes new = []"
  "close_fd k fd (ep, m) = (rc, (ep', m')) \<Longrightarrow> \<exists>new. trace m' = trace m @ new \<and> writes new = []"
  "process_events k tm (ep, m) = (rp, (ep', m')) \<Longrightarrow> \<exists>new. trace m' = trace m @ new \<and> writes new = []"
  subgoal by (auto simp: accept_def Let_def do_call_trace split: prod.splits if_splits)
  subgoal by (auto simp: register_def Let_def do_call_trace split: prod.splits if_splits)
  subgoal by (auto simp: epoll_read_def Let_def do_call_trace split: prod.splits if_splits)
  subgoal by (erule close_fd_cases) auto
  subgoal by (auto simp: process_events_def io_bind_def wait_def Let_def do_call_trace
      split: prod.splits if_splits res.splits)
  done

lemma counted_request:
  assumes "handle_request pf config fd buf s = y"
  shows "counted pf s y"
proof -
  obtain ep sv where s: "s = (ep, sv)" by (cases s)
  obtain res ep' sv' where run: "handle_request pf config fd buf (ep, sv) = (res, (ep', sv'))"
    by (metis prod.collapse)
  then have "counted pf (ep, sv) (res, (ep', sv'))"
  proof (cases rule: handle_request_cases)
    case (no_response e)
    from make_response_effects [OF no_response(2)] obtain new where fx:
      "\<exists>m. sv' = sv\<lparr>sv_prom := pr_inc (pf_prom pf) RequestsTotal (sv_prom sv), sv_os := m\<rparr>"
      "trace (sv_os sv') = trace (sv_os sv) @ new" "\<forall>(c, r) \<in> set new. file_call c" by auto
    with no_response file_calls_only(1) [OF fx(3)] show ?thesis
      by (auto simp: counted_def counter_laws_def written_bytes_none intro!: exI [of _ new] exI [of _ 1])
  next
    case panics
    from make_response_effects [OF panics(2)] obtain new where fx:
      "\<exists>m. sv' = sv\<lparr>sv_prom := pr_inc (pf_prom pf) RequestsTotal (sv_prom sv), sv_os := m\<rparr>"
      "trace (sv_os sv') = trace (sv_os sv) @ new" "\<forall>(c, r) \<in> set new. file_call c" by auto
    with panics file_calls_only(1) [OF fx(3)] show ?thesis
      by (auto simp: counted_def counter_laws_def written_bytes_none intro!: exI [of _ new] exI [of _ 1])
  next
    case (no_write resp sv1 r)
    from make_response_effects [OF no_write(2)] obtain new where fx:
      "\<exists>m. sv1 = sv\<lparr>sv_prom := pr_inc (pf_prom pf) RequestsTotal (sv_prom sv), sv_os := m\<rparr>"
      "trace (sv_os sv1) = trace (sv_os sv) @ new" "\<forall>(c, r) \<in> set new. file_call c" by auto
    with no_write file_calls_only(1) [OF fx(3)] show ?thesis
      by (auto simp: counted_def counter_laws_def written_bytes_none
          intro!: exI [of _ "new @ [(SysWrite fd (to_bytes (pf_header_order pf) resp), r)]"] exI [of _ 0])
  next
    case (answered resp sv1 r)
    from make_response_effects [OF answered(2)] obtain new where fx:
      "\<exists>m. sv1 = sv\<lparr>sv_prom := pr_inc (pf_prom pf) RequestsTotal (sv_prom sv), sv_os := m\<rparr>"
      "trace (sv_os sv1) = trace (sv_os sv) @ new" "\<forall>(c, r) \<in> set new. file_call c" by auto
    with answered file_calls_only(1) [OF fx(3)] show ?thesis
      by (auto simp: counted_def counter_laws_def written_bytes_none
          intro!: exI [of _ "new @ [(SysWrite fd (to_bytes (pf_header_order pf) resp), r)]"] exI [of _ 0])
  qed
  with assms show ?thesis by (simp add: s run)
qed

lemma counted_ops:
  "on_ep (accept k l) s = (ra, t) \<Longrightarrow> counted pf s (r, t)"
  "on_ep (register k fd ev) s = (rr, t) \<Longrightarrow> counted pf s (r, t)"
  "on_ep (epoll_read k fd buf) s = (re, t) \<Longrightarrow> counted pf s (r, t)"
  "on_ep (close_fd k fd) s = (rc, t) \<Longrightarrow> counted pf s (r, t)"
  "on_ep (process_events k tm) s = (rp, t) \<Longrightarrow> counted pf s (r, t)"
  by (erule counted_call, erule silent_ops)+

interpretation acc: event_steps pf config l "counted pf"
  for pf :: "('w, 'p) platform" and config and l
proof
  show "counted pf s (Ok (), s)" for s :: "('w, 'p) rstate"
    by (rule counted_silent [where new = "[]"]) simp_all
  show "counted pf s y" if "counted pf s (Ok (), t)" "counted pf t y"
    for s t :: "('w, 'p) rstate" and y
    using that by (rule counted_trans)
  show "counted pf s (r, t)" if "counted pf s (Ok (), t)" for s t :: "('w, 'p) rstate" and r
    using that by (fastforce simp: counted_def)
  show "sv_running (snd (snd y)) = sv_running (snd s)" if "counted pf s y"
    for s :: "('w, 'p) rstate" and y
    using that by (auto simp: counted_def)
  show "counted pf s (r, u)" if "on_ep (accept (pf_kernel pf) l) s = (Ok fd, t)"
    "on_ep (register (pf_kernel pf) fd ev) t = (r, u)" for s t u :: "('w, 'p) rstate" and fd ev r
    by (rule counted_trans [OF counted_ops(1) [OF that(1)] counted_ops(2) [OF that(2)]])
  show "counted pf s y" if "on_ep (close_fd (pf_kernel pf) fd) s = y" for s :: "('w, 'p) rstate" and fd y
    using that by (cases y) (simp add: counted_ops(4))
qed (auto intro: counted_ops counted_request)

text \<open>C3: every request is accounted for.  In every run of the event loop, for any mix of connections and
  requests: the request counter has gone up by the number of responses written, plus at most one when
  the run ended with an error, and the byte counter by the total length of the responses whose write
  succeeded, both modulo 2 to the 64.\<close>

theorem request_accounting:
  assumes "event_while pf config l (ep, sv) = Some (r, (ep', sv'))" and "counter_laws (pf_prom pf)"
  shows "\<exists>new d. trace (sv_os sv') = trace (sv_os sv) @ new \<and> d \<le> (1 :: nat) \<and>
    pr_get (pf_prom pf) (sv_prom sv') RequestsTotal =
      pr_get (pf_prom pf) (sv_prom sv) RequestsTotal + word_of_nat (length (writes new) + d) \<and>
    pr_get (pf_prom pf) (sv_prom sv') BytesSent =
      pr_get (pf_prom pf) (sv_prom sv) BytesSent + word_of_nat (written_bytes new)"
  using conjunct1 [OF acc.event_while_keeps [OF assms(1)]] assms(2)
  by (auto simp: counted_def)

theorem request_accounting_witness:
  "\<exists>(sv' :: (sysret list, u64 \<times> u64 \<times> nat) server) new d.
    trace (sv_os sv') = new \<and> length (writes new) = 1 \<and> d \<le> (1 :: nat) \<and>
    pr_get plain_prom (sv_prom sv') RequestsTotal = word_of_nat (length (writes new) + d) \<and>
    pr_get plain_prom (sv_prom sv') BytesSent = word_of_nat (written_bytes new)"
proof -
  let ?pf = "demo_platform get_root" and ?c = "demo_config [] FastPath"
  let ?s = "demo_state [(ret_int 1)\<lparr>out_events := [(1, 7)]\<rparr>,
      (ret_int 5)\<lparr>out_bytes := [1, 2, 3, 4, 5]\<rparr>, ret_int (-1), ret_int 64]"
  have "\<exists>y. event_while ?pf ?c 4 ?s = Some y \<and> length (writes (trace (sv_os (snd (snd y))))) = 1"
    by (simp add: handle_event_def EPOLLIN_def on_ep_def epoll_read_def demo_platform_def
        demo_state_def overlay_def word_sless_alt Let_def handle_request_def io_bind_def on_prom_def
        make_response_def get_root_def HttpRequest_parse_def demo_config_def on_os_def
        handle_static_file_def io_res_def slice_from_1 path_exists_def epoll_write_def io_return_def
        event_while.simps [of _ _ _ "(_, _)"] process_events_def wait_def u64_to_fd_def do_call_def)
  then obtain r ep' sv' where run: "event_while ?pf ?c 4 (fst ?s, snd ?s) = Some (r, (ep', sv'))"
    "length (writes (trace (sv_os sv'))) = 1"
    by auto
  have init: "trace (sv_os (snd ?s)) = []" "sv_prom (snd ?s) = (0, 0, 0)" "pf_prom ?pf = plain_prom"
    by (simp_all add: demo_state_def demo_platform_def)
  have zero: "pr_get plain_prom (0, 0, 0) c = 0" for c
    by (cases c) (simp_all add: plain_prom_def)
  note acct = request_accounting [OF run(1), unfolded init zero, OF plain_prom_laws,
      unfolded append_Nil add_0_left]
  from acct run(2) show ?thesis by (metis (no_types))
qed

end
