(* ===== verification/Worker.thy ===== *)
theory Worker
  imports Queue
begin

text \<open>
  \<open>worker_thread\<close> of \<open>src/worker/reactor.rs\<close>: the threads that take tasks from the work-stealing queues,
  as a small-step relation.  Each step of a worker is one atomic action of the code (loading the
  flag, one pop of one queue); the steps of the workers, of threads that push tasks and of a thread
  that clears the flag interleave in any order.
\<close>

section \<open>One worker\<close>

text \<open>
  Where a worker is: about to load the flag, in \<open>pop\<close> with these queues left to look at, or gone.
  The sleep after an empty round changes nothing and is part of the step back to the loop's head.
\<close>

datatype worker_pc = AtLoop | Scanning "lock_free_queue list" | Exited

record worker =
  wk_queue :: work_stealing_queue
  wk_pc :: worker_pc

text \<open>The core a worker asks to be pinned to; whether that works is only logged.\<close>

definition worker_core :: "nat \<Rightarrow> nat \<Rightarrow> nat" where
  "worker_core worker_id cpus = worker_id mod cpus"

text \<open>The \<open>match task\<close> of the loop: requests are only logged, \<open>Shutdown\<close> leaves the loop.\<close>

fun after_task :: "task \<Rightarrow> worker_pc" where
  "after_task (ProcessRequest fd data) = AtLoop"
| "after_task Shutdown = Exited"
| "after_task _ = AtLoop"

definition worker_step ::
    "('q, task) array_queue \<Rightarrow> bool \<Rightarrow> worker \<Rightarrow> 'q list \<Rightarrow> worker \<times> 'q list \<times> task option" where
  "worker_step aq running w heap =
    (case wk_pc w of
       AtLoop \<Rightarrow>
         (w\<lparr>wk_pc := if running
             then Scanning (local_queue (wk_queue w) # shared_queues (wk_queue w)) else Exited\<rparr>,
          heap, None)
     | Scanning [] \<Rightarrow> (w\<lparr>wk_pc := AtLoop\<rparr>, heap, None)
     | Scanning (q # qs) \<Rightarrow>
         (case lfq_pop aq q heap of
            (Some task, heap) \<Rightarrow> (w\<lparr>wk_pc := after_task task\<rparr>, heap, Some task)
          | (None, heap) \<Rightarrow> (w\<lparr>wk_pc := Scanning qs\<rparr>, heap, None))
     | Exited \<Rightarrow> (w, heap, None))"

definition new_worker :: "work_stealing_queue \<Rightarrow> worker" where
  "new_worker q = \<lparr>wk_queue = q, wk_pc = AtLoop\<rparr>"

text \<open>A number of steps of one worker with nobody else running, and the tasks it took.\<close>

fun alone ::
    "('q, task) array_queue \<Rightarrow> bool \<Rightarrow> nat \<Rightarrow> worker \<Rightarrow> 'q list \<Rightarrow> worker \<times> 'q list \<times> task list" where
  "alone aq running 0 w heap = (w, heap, [])"
| "alone aq running (Suc n) w heap =
    (let (w, heap, t) = worker_step aq running w heap;
         (w, heap, ts) = alone aq running n w heap
     in (w, heap, (case t of None \<Rightarrow> [] | Some x \<Rightarrow> [x]) @ ts))"

fun after_pop :: "task option \<Rightarrow> worker_pc" where
  "after_pop None = AtLoop"
| "after_pop (Some t) = after_task t"

lemma scan_alone:
  assumes "wk_pc w = Scanning qs" and "steal_loop aq qs heap = (r, heap')"
  shows "\<exists>n \<le> Suc (length qs). alone aq running n w heap =
    (w\<lparr>wk_pc := after_pop r\<rparr>, heap', case r of None \<Rightarrow> [] | Some t \<Rightarrow> [t])"
  using assms
proof (induction qs arbitrary: w heap)
  case Nil
  then show ?case
    by (intro exI [of _ "Suc 0"]) (simp add: worker_step_def)
next
  case (Cons q qs)
  obtain t h where pop: "lfq_pop aq q heap = (t, h)" by fastforce
  show ?case
  proof (cases t)
    case (Some x)
    with Cons.prems pop show ?thesis
      by (intro exI [of _ "Suc 0"]) (auto simp: worker_step_def)
  next
    case None
    let ?w = "w\<lparr>wk_pc := Scanning qs\<rparr>"
    have "steal_loop aq qs h = (r, heap')" using Cons.prems pop None by simp
    from Cons.IH [OF _ this, of ?w] obtain n where n: "n \<le> Suc (length qs)"
      "alone aq running n ?w h = (?w\<lparr>wk_pc := after_pop r\<rparr>, heap', case r of None \<Rightarrow> [] | Some t \<Rightarrow> [t])"
      by auto
    then show ?thesis
      using Cons.prems pop None
      by (intro exI [of _ "Suc n"]) (simp add: worker_step_def)
  qed
qed

text \<open>C24: one round of a worker.  With the flag set and nobody interfering, a worker at the head of its
  loop comes back there, or leaves on \<open>Shutdown\<close>, after at most one step per queue and two more; it
  has done exactly what one \<open>pop\<close> of its work-stealing queue does, and took the task that returned, if
  any.  With the flag cleared it leaves at its next step and takes nothing.\<close>

theorem worker_round:
  assumes "wk_pc w = AtLoop" and "wsq_pop aq (wk_queue w) heap = (r, heap')"
  shows "(\<exists>n \<le> length (shared_queues (wk_queue w)) + 3. alone aq True n w heap =
      (w\<lparr>wk_pc := case r of Some Shutdown \<Rightarrow> Exited | _ \<Rightarrow> AtLoop\<rparr>, heap',
       case r of None \<Rightarrow> [] | Some t \<Rightarrow> [t])) \<and>
    alone aq False 1 w heap = (w\<lparr>wk_pc := Exited\<rparr>, heap, [])"
proof -
  let ?qs = "local_queue (wk_queue w) # shared_queues (wk_queue w)"
  let ?w = "w\<lparr>wk_pc := Scanning ?qs\<rparr>"
  have pc: "after_pop r = (case r of Some Shutdown \<Rightarrow> Exited | _ \<Rightarrow> AtLoop)"
    by (cases r rule: after_pop.cases) (auto split: task.split)
  have "steal_loop aq ?qs heap = (r, heap')"
    using assms(2) by (simp add: wsq_pop_steal_loop del: steal_loop.simps)
  from scan_alone [OF _ this, of ?w True] obtain n where n: "n \<le> Suc (length ?qs)"
    "alone aq True n ?w heap = (?w\<lparr>wk_pc := after_pop r\<rparr>, heap', case r of None \<Rightarrow> [] | Some t \<Rightarrow> [t])"
    by auto
  then have "alone aq True (Suc n) w heap =
      (w\<lparr>wk_pc := after_pop r\<rparr>, heap', case r of None \<Rightarrow> [] | Some t \<Rightarrow> [t])"
    using assms(1) by (simp add: worker_step_def)
  with n(1) show ?thesis
    using assms(1) unfolding pc
    by (intro conjI exI [of _ "Suc n"]) (simp_all add: worker_step_def)
qed

theorem worker_round_witness:
  "\<exists>n \<le> 4. alone list_queue True n
      (new_worker \<lparr>local_queue = \<lparr>lfq_ref = 0\<rparr>, shared_queues = [\<lparr>lfq_ref = 1\<rparr>]\<rparr>)
      [(10, []), (10, [Shutdown])] =
    ((new_worker \<lparr>local_queue = \<lparr>lfq_ref = 0\<rparr>, shared_queues = [\<lparr>lfq_ref = 1\<rparr>]\<rparr>)\<lparr>wk_pc := Exited\<rparr>,
     [(10, []), (10, [])], [Shutdown])"
proof -
  let ?w = "new_worker \<lparr>local_queue = \<lparr>lfq_ref = 0\<rparr>, shared_queues = [\<lparr>lfq_ref = 1\<rparr>]\<rparr>"
  have "wk_pc ?w = AtLoop" and "wsq_pop list_queue (wk_queue ?w) [(10, []), (10, [Shutdown])] =
      (Some Shutdown, [(10, []), (10, [])])"
    by (simp_all add: new_worker_def wsq_pop_def lfq_pop_def list_queue_def)
  from worker_round [OF this] show ?thesis by (simp add: new_worker_def)
qed

section \<open>The pool\<close>

text \<open>
  The shared state, with two ghost fields: the tasks whose push succeeded, and the tasks taken, with
  the worker that took each.
\<close>

record 'q pool =
  pl_heap :: "'q list"
  pl_running :: bool
  pl_workers :: "worker list"
  pl_pushed :: "task list"
  pl_taken :: "(nat \<times> task) list"

definition new_pool :: "work_stealing_queue list \<Rightarrow> 'q list \<Rightarrow> 'q pool" where
  "new_pool queues heap =
    \<lparr>pl_heap = heap, pl_running = True, pl_workers = map new_worker queues, pl_pushed = [], pl_taken = []\<rparr>"

inductive pool_step :: "('q, task) array_queue \<Rightarrow> 'q pool \<Rightarrow> 'q pool \<Rightarrow> bool" for aq where
  Work: "i < length (pl_workers p) \<Longrightarrow>
      worker_step aq (pl_running p) (pl_workers p ! i) (pl_heap p) = (w, heap, t) \<Longrightarrow>
      pool_step aq p (p\<lparr>pl_heap := heap, pl_workers := (pl_workers p)[i := w],
        pl_taken := pl_taken p @ (case t of None \<Rightarrow> [] | Some x \<Rightarrow> [(i, x)])\<rparr>)"
| Push: "i < length (pl_workers p) \<Longrightarrow>
      wsq_push aq (wk_queue (pl_workers p ! i)) t (pl_heap p) = (r, heap) \<Longrightarrow>
      pool_step aq p (p\<lparr>pl_heap := heap,
        pl_pushed := pl_pushed p @ (case r of None \<Rightarrow> [t] | Some x \<Rightarrow> [])\<rparr>)"
| Stop: "pool_step aq p (p\<lparr>pl_running := False\<rparr>)"

inductive pool_reach :: "('q, task) array_queue \<Rightarrow> 'q pool \<Rightarrow> 'q pool \<Rightarrow> bool" for aq p where
  start: "pool_reach aq p p"
| step: "pool_reach aq p q \<Longrightarrow> pool_step aq q r \<Longrightarrow> pool_reach aq p r"

text \<open>All the tasks in a heap of queues.\<close>

definition in_queues :: "('q \<Rightarrow> task list) \<Rightarrow> 'q list \<Rightarrow> task multiset" where
  "in_queues items heap = mset (concat (map items heap))"

fun pc_queues :: "worker_pc \<Rightarrow> lock_free_queue list" where
  "pc_queues (Scanning qs) = qs"
| "pc_queues _ = []"

definition worker_ok :: "nat \<Rightarrow> worker \<Rightarrow> bool" where
  "worker_ok n w \<longleftrightarrow> (\<forall>j \<in> set (wsq_refs (wk_queue w)) \<union> lfq_ref ` set (pc_queues (wk_pc w)). j < n)"

definition exited :: "'q pool \<Rightarrow> nat" where
  "exited p = length (filter (\<lambda>w. wk_pc w = Exited) (pl_workers p))"

definition shutdowns :: "'q pool \<Rightarrow> nat" where
  "shutdowns p = length (filter (\<lambda>(i, t). t = Shutdown) (pl_taken p))"

definition pool_inv ::
    "('q, task) array_queue \<Rightarrow> ('q \<Rightarrow> bool) \<Rightarrow> ('q \<Rightarrow> task list) \<Rightarrow> 'q pool \<Rightarrow> bool" where
  "pool_inv aq ok items p \<longleftrightarrow>
    heap_ok aq ok items (pl_heap p) \<and> (\<forall>w \<in> set (pl_workers p). worker_ok (length (pl_heap p)) w) \<and>
    mset (pl_pushed p) = mset (map snd (pl_taken p)) + in_queues items (pl_heap p) \<and>
    (pl_running p \<longrightarrow> exited p = shutdowns p)"

lemma in_queues_update:
  assumes "i < length heap"
  shows "in_queues items (heap[i := q]) + mset (items (heap ! i)) =
    in_queues items heap + mset (items q)"
  using assms
proof (induction heap arbitrary: i)
  case (Cons h heap)
  then show ?case
    by (cases i) (auto simp: in_queues_def ac_simps)
qed simp

fun opt_list :: "'a option \<Rightarrow> 'a list" where
  "opt_list None = []"
| "opt_list (Some x) = [x]"

lemma lfq_pop_effect:
  assumes "heap_ok aq ok items heap" and "lfq_ref q < length heap" and "lfq_pop aq q heap = (r, heap')"
  shows "heap_ok aq ok items heap' \<and> length heap' = length heap \<and>
    in_queues items heap = in_queues items heap' + mset (opt_list r)"
proof -
  obtain a where a: "heap' = heap[lfq_ref q := a]"
    using assms(3) by (auto simp: lfq_pop_def split: prod.splits)
  have "mset (items (heap ! lfq_ref q)) = mset (items (heap' ! lfq_ref q)) + mset (opt_list r)"
    using lq.pop_mset [of aq ok items heap q r heap'] assms by (cases r) auto
  then have "in_queues items heap + mset (items a) = in_queues items heap' + mset (opt_list r) + mset (items a)"
    using in_queues_update [OF assms(2), of items a] assms(2) by (simp add: a)
  moreover have "heap_ok aq ok items heap'"
    using lq.ok_pop [of aq ok items heap q] assms by simp
  ultimately show ?thesis by (simp add: a)
qed

lemma lfq_push_effect:
  assumes "heap_ok aq ok items heap" and "lfq_ref q < length heap" and "lfq_push aq q t heap = (r, heap')"
  shows "heap_ok aq ok items heap' \<and> length heap' = length heap \<and>
    in_queues items heap' = in_queues items heap + (case r of None \<Rightarrow> {#t#} | Some x \<Rightarrow> {#})"
proof -
  obtain a where a: "heap' = heap[lfq_ref q := a]"
    using assms(3) by (auto simp: lfq_push_def split: prod.splits)
  have "(r = None \<and> items (heap' ! lfq_ref q) = items (heap ! lfq_ref q) @ [t]) \<or>
      (r = Some t \<and> items (heap' ! lfq_ref q) = items (heap ! lfq_ref q))"
    using lq.push_spec [of aq ok items heap q t r heap'] assms by (auto split: if_splits)
  then have "in_queues items heap' + mset (items (heap ! lfq_ref q)) =
      in_queues items heap + mset (items (heap ! lfq_ref q)) + (case r of None \<Rightarrow> {#t#} | Some x \<Rightarrow> {#})"
    using in_queues_update [OF assms(2), of items a] assms(2) by (auto simp: a)
  moreover have "heap_ok aq ok items heap'"
    using lq.ok_push [of aq ok items heap q t] assms by simp
  ultimately show ?thesis by (simp add: a)
qed

lemma after_task_Exited [simp]: "after_task t = Exited \<longleftrightarrow> t = Shutdown"
  by (cases t) simp_all

lemma pc_queues_after_task [simp]: "pc_queues (after_task t) = []"
  by (cases t) simp_all

lemma worker_step_effect:
  assumes "heap_ok aq ok items heap" and "worker_ok (length heap) w"
    and "worker_step aq running w heap = (w', heap', t)"
  shows "heap_ok aq ok items heap' \<and> length heap' = length heap \<and> worker_ok (length heap') w' \<and>
    in_queues items heap = in_queues items heap' + mset (opt_list t) \<and>
    (wk_pc w' = Exited \<longleftrightarrow> wk_pc w = Exited \<or> t = Some Shutdown \<or> (wk_pc w = AtLoop \<and> \<not> running)) \<and>
    (t \<noteq> None \<longrightarrow> wk_pc w \<noteq> Exited)"
proof (cases "wk_pc w")
  case AtLoop
  with assms show ?thesis
    by (cases running) (auto simp: worker_step_def worker_ok_def wsq_refs_def)
next
  case (Scanning qs)
  show ?thesis
  proof (cases qs)
    case Nil
    with assms Scanning show ?thesis
      by (auto simp: worker_step_def worker_ok_def)
  next
    case (Cons q qs')
    obtain r h where pop: "lfq_pop aq q heap = (r, h)" by fastforce
    have "lfq_ref q < length heap"
      using assms(2) Scanning Cons by (auto simp: worker_ok_def)
    from lfq_pop_effect [OF assms(1) this pop] show ?thesis
      using assms(2,3) Scanning Cons pop
      by (cases r) (auto simp: worker_step_def worker_ok_def)
  qed
next
  case Exited
  with assms show ?thesis
    by (auto simp: worker_step_def)
qed

lemma count_filter_update:
  assumes "i < length ws"
  shows "length (filter P (ws[i := w])) + (if P (ws ! i) then 1 else 0) =
    length (filter P ws) + (if P w then 1 else 0)"
  using assms
proof (induction ws arbitrary: i)
  case (Cons v ws)
  then show ?case by (cases i) auto
qed simp

lemma pool_step_inv:
  assumes "pool_step aq p q" and "pool_inv aq ok items p"
  shows "pool_inv aq ok items q"
  using assms
proof (induction rule: pool_step.induct)
  case (Work i p w heap t)
  have wok: "worker_ok (length (pl_heap p)) (pl_workers p ! i)"
    and hok: "heap_ok aq ok items (pl_heap p)"
    using Work by (simp_all add: pool_inv_def)
  note eff = worker_step_effect [OF hok wok Work(2)]
  have taken: "(case t of None \<Rightarrow> [] | Some x \<Rightarrow> [(i, x)]) = map (Pair i) (opt_list t)"
    by (cases t) simp_all
  have refs: "\<forall>v \<in> set ((pl_workers p)[i := w]). worker_ok (length heap) v"
    using Work(3) eff set_update_subset_insert [of "pl_workers p" i w]
    by (auto simp: pool_inv_def)
  have count: "length (filter (\<lambda>w. wk_pc w = Exited) ((pl_workers p)[i := w])) =
      shutdowns p + length (filter (\<lambda>t. t = Shutdown) (opt_list t))" if "pl_running p"
    using count_filter_update [OF Work(1), of "\<lambda>w. wk_pc w = Exited" w] eff Work(3) that
    by (cases t) (auto simp: exited_def pool_inv_def split: if_splits)
  have "shutdowns p + length (filter (\<lambda>t. t = Shutdown) (opt_list t)) =
      length (filter (\<lambda>(i, t). t = Shutdown) (pl_taken p @ map (Pair i) (opt_list t)))"
    by (simp add: shutdowns_def filter_map comp_def)
  with Work(3) eff refs count show ?case
    by (auto simp: pool_inv_def taken comp_def exited_def shutdowns_def)
next
  case (Push i p t r heap)
  have "lfq_ref (local_queue (wk_queue (pl_workers p ! i))) < length (pl_heap p)"
    using Push by (auto simp: pool_inv_def worker_ok_def wsq_refs_def)
  from lfq_push_effect [OF _ this, of aq ok items t r heap] show ?case
    using Push
    by (cases r) (auto simp: pool_inv_def wsq_push_def exited_def shutdowns_def)
next
  case (Stop p)
  then show ?case by (simp add: pool_inv_def)
qed

lemma pool_reach_inv: "pool_reach aq p q \<Longrightarrow> pool_inv aq ok items p \<Longrightarrow> pool_inv aq ok items q"
  by (induction rule: pool_reach.induct) (auto intro: pool_step_inv)

lemma new_pool_inv:
  assumes "array_queue_laws aq ok items" and "0 < capacity"
    and "WorkStealingQueue_new aq n capacity [] = (Ok ws, heap)"
  shows "pool_inv aq ok items (new_pool ws heap)"
proof -
  from WorkStealingQueue_new_spec [OF assms(1,2), of n] assms(3) have w:
    "length ws = n" "length heap = n" "heap_ok aq ok items heap" "\<forall>q \<in> set heap. items q = []"
    "\<forall>i < n. wsq_refs (ws ! i) = steal_order n i" by auto
  have "\<forall>w \<in> set ws. \<forall>j \<in> set (wsq_refs w). j < n"
  proof
    fix w assume "w \<in> set ws"
    then obtain i where "i < n" "w = ws ! i" using w(1) by (auto simp: in_set_conv_nth)
    with w(5) show "\<forall>j \<in> set (wsq_refs w). j < n" by (auto simp: set_steal_order)
  qed
  moreover have "in_queues items heap = {#}"
    using w(4) by (auto simp: in_queues_def)
  ultimately show ?thesis
    using w(2,3)
    by (auto simp: pool_inv_def new_pool_def new_worker_def worker_ok_def exited_def shutdowns_def)
qed

text \<open>A pool of one worker, a task pushed to it, and the worker taking it.\<close>

definition demo_pool :: "(nat \<times> task list) pool" where
  "demo_pool = new_pool [\<lparr>local_queue = \<lparr>lfq_ref = 0\<rparr>, shared_queues = []\<rparr>] [(10, [])]"

lemma demo_pool_new:
  "WorkStealingQueue_new list_queue 1 10 [] =
    (Ok [\<lparr>local_queue = \<lparr>lfq_ref = 0\<rparr>, shared_queues = []\<rparr>], [(10, [] :: task list)])"
  by (simp add: WorkStealingQueue_new_def LockFreeQueue_new_def list_queue_def lfq_clone_def)

lemma demo_pool_pushed:
  "pool_reach list_queue demo_pool (demo_pool\<lparr>pl_heap := [(10, [t])], pl_pushed := [t]\<rparr>)"
proof -
  have "pool_step list_queue demo_pool
      (demo_pool\<lparr>pl_heap := [(10, [t])], pl_pushed := pl_pushed demo_pool @ [t]\<rparr>)"
    using pool_step.Push [of 0 demo_pool list_queue t None "[(10, [t])]"]
    by (simp add: demo_pool_def new_pool_def new_worker_def wsq_push_def lfq_push_def list_queue_def)
  then have "pool_step list_queue demo_pool (demo_pool\<lparr>pl_heap := [(10, [t])], pl_pushed := [t]\<rparr>)"
    by (simp add: demo_pool_def new_pool_def)
  with pool_reach.start show ?thesis by (rule pool_reach.step)
qed

text \<open>C8: no task is lost, duplicated or made up.  In every interleaving of worker steps, pushes and a
  stop, from freshly built queues: the tasks whose push succeeded are, as a multiset, the tasks the
  workers took together with those still in the queues.\<close>

theorem pool_conserves_tasks:
  assumes "array_queue_laws aq ok items" and "0 < capacity"
    and "WorkStealingQueue_new aq n capacity [] = (Ok ws, heap)"
    and "pool_reach aq (new_pool ws heap) p"
  shows "mset (pl_pushed p) = mset (map snd (pl_taken p)) + mset (concat (map items (pl_heap p)))"
  using pool_reach_inv [OF assms(4) new_pool_inv [OF assms(1-3)]]
  by (simp add: pool_inv_def in_queues_def)

theorem pool_conserves_tasks_witness:
  "mset [Shutdown] = mset (map snd ([] :: (nat \<times> task) list)) + mset (concat (map snd [(10 :: nat, [Shutdown])]))"
proof -
  have laws: "array_queue_laws (list_queue :: (nat \<times> task list, task) array_queue) list_queue_ok snd"
    by (rule list_queue_laws)
  have "(0 :: nat) < 10" by simp
  from pool_conserves_tasks [OF laws this demo_pool_new demo_pool_pushed [unfolded demo_pool_def]]
  show ?thesis by (simp add: new_pool_def)
qed

text \<open>C23: what stops a worker.  While the flag is set, in every interleaving, exactly as many workers
  have left their loop as \<open>Shutdown\<close> tasks were taken; so when none was ever pushed, as in this
  program, every worker is still in its loop.\<close>

theorem workers_stop_on_shutdown:
  assumes "array_queue_laws aq ok items" and "0 < capacity"
    and "WorkStealingQueue_new aq n capacity [] = (Ok ws, heap)"
    and "pool_reach aq (new_pool ws heap) p" and "pl_running p"
  shows "length (filter (\<lambda>w. wk_pc w = Exited) (pl_workers p)) =
      length (filter (\<lambda>(i, t). t = Shutdown) (pl_taken p)) \<and>
    (Shutdown \<in> set (pl_pushed p) \<or> (\<forall>w \<in> set (pl_workers p). wk_pc w \<noteq> Exited))"
proof -
  note inv = pool_reach_inv [OF assms(4) new_pool_inv [OF assms(1-3)]]
  have eq: "exited p = shutdowns p" using inv assms(5) by (simp add: pool_inv_def)
  have "\<forall>w \<in> set (pl_workers p). wk_pc w \<noteq> Exited" if "Shutdown \<notin> set (pl_pushed p)"
  proof -
    have "set_mset (mset (map snd (pl_taken p))) \<subseteq> set_mset (mset (pl_pushed p))"
      using inv by (simp add: pool_inv_def)
    then have "shutdowns p = 0"
      using that by (force simp: shutdowns_def filter_empty_conv)
    then show ?thesis
      using eq by (simp add: exited_def filter_empty_conv)
  qed
  with eq show ?thesis by (auto simp: exited_def shutdowns_def)
qed

theorem workers_stop_on_shutdown_witness:
  "Shutdown \<in> set [CloseConnection 3] \<or>
    (\<forall>w \<in> set (pl_workers (demo_pool\<lparr>pl_heap := [(10, [CloseConnection 3])],
      pl_pushed := [CloseConnection 3]\<rparr>)). wk_pc w \<noteq> Exited)"
proof -
  have laws: "array_queue_laws (list_queue :: (nat \<times> task list, task) array_queue) list_queue_ok snd"
    by (rule list_queue_laws)
  have "(0 :: nat) < 10" by simp
  from workers_stop_on_shutdown [OF laws this demo_pool_new
      demo_pool_pushed [of "CloseConnection 3", unfolded demo_pool_def]]
  show ?thesis by (simp add: new_pool_def demo_pool_def)
qed

end
