(* ===== verification/Tuning.thy ===== *)
theory Tuning
  imports Host Syscalls
begin

text \<open>
  \<open>src/sys/tuning.rs\<close>: the report on system limits at the start of the server, the advice it prints,
  the function that applies the recommended kernel settings, and three further checks.
\<close>

section \<open>Limits, network, kernel\<close>

definition check_file_descriptors :: "'w host \<Rightarrow> ('w host_state, unit) io" where
  "check_file_descriptors h s =
    (case getrlimit_nofile h (hs_world s) of
       Some (rlim_cur, rlim_max) \<Rightarrow>
         (let s = says [Info (lit ''File descriptor limits:''),
                Info (lit ''  Soft limit: '' @ show_nat (unat rlim_cur)),
                Info (lit ''  Hard limit: '' @ show_nat (unat rlim_max))] s in
          (Ok (),
           if rlim_cur < 65536 then
             says [Warn (lit ''File descriptor soft limit is low. Consider increasing it.''),
                   Warn (lit ''Run: ulimit -n 65536'')] s
           else s))
     | None \<Rightarrow> (Err RlimitFailed, s))"

definition network_params :: "(rstr \<times> rstr \<times> int) list" where
  "network_params =
    [(lit ''/proc/sys/net/core/somaxconn'', lit ''somaxconn'', 4096),
     (lit ''/proc/sys/net/ipv4/tcp_max_syn_backlog'', lit ''tcp_max_syn_backlog'', 8192),
     (lit ''/proc/sys/net/core/netdev_max_backlog'', lit ''netdev_max_backlog'', 5000),
     (lit ''/proc/sys/net/ipv4/tcp_fin_timeout'', lit ''tcp_fin_timeout'', 30),
     (lit ''/proc/sys/net/ipv4/tcp_tw_reuse'', lit ''tcp_tw_reuse'', 1)]"

text \<open>The check mark is U+2713, the cross U+2717.\<close>

definition param_line :: "rstr \<Rightarrow> int \<Rightarrow> int \<Rightarrow> log_line" where
  "param_line name val recommended =
    (let status = (if recommended \<le> val then [10003] else [10007]) in
     Info (lit ''  '' @ status @ lit '' '' @ name @ lit '': '' @ show_int val @
       lit '' (recommended: '' @ show_int recommended @ lit '')''))"

definition check_param :: "'w host \<Rightarrow> rstr \<times> rstr \<times> int \<Rightarrow> 'w host_state \<Rightarrow> 'w host_state" where
  "check_param h = (\<lambda>(path, name, recommended) s.
    case read_to_string h path (hs_world s) of
      None \<Rightarrow> s
    | Some content \<Rightarrow>
        (case parse_sint 32 (trim content) of
           None \<Rightarrow> s
         | Some val \<Rightarrow> say (param_line name val recommended) s))"

definition check_network_tuning :: "'w host \<Rightarrow> 'w host_state \<Rightarrow> 'w host_state" where
  "check_network_tuning h s =
    fold (check_param h) network_params (say (Info (lit ''Network tuning parameters:'')) s)"

definition check_kernel_version :: "'w host \<Rightarrow> 'w host_state \<Rightarrow> 'w host_state" where
  "check_kernel_version h s =
    (case read_to_string h (lit ''/proc/version'') (hs_world s) of
       None \<Rightarrow> s
     | Some content \<Rightarrow>
         (let s = say (Info (lit ''Kernel version: '' @ trim content)) s in
          if str_contains (lit ''5.1'') content \<or> str_contains (lit ''5.0'') content then
            says [Warn (lit ''Kernel version may have limited io_uring support''),
                  Warn (lit ''For full io_uring features, upgrade to kernel 5.11+'')] s
          else s))"

definition print_tuning_recommendations :: "'w host_state \<Rightarrow> 'w host_state" where
  "print_tuning_recommendations s =
    (let s = says (map (Info \<circ> lit)
           ['''', ''Performance tuning recommendations:'',
            ''  Run ./scripts/tune_sysctl.sh for automatic tuning'',
            ''  Or manually apply these settings:'', '''']) s;
         recommendations =
           [''# Network tuning'',
            ''sysctl -w net.core.somaxconn=4096'',
            ''sysctl -w net.ipv4.tcp_max_syn_backlog=8192'',
            ''sysctl -w net.core.netdev_max_backlog=5000'',
            ''sysctl -w net.ipv4.tcp_fin_timeout=15'',
            ''sysctl -w net.ipv4.tcp_tw_reuse=1'',
            ''sysctl -w net.ipv4.tcp_tw_recycle=0'',
            '''',
            ''# Memory tuning'',
            ''sysctl -w vm.swappiness=10'',
            ''sysctl -w net.core.rmem_max=16777216'',
            ''sysctl -w net.core.wmem_max=16777216'',
            '''',
            ''# File descriptor limits'',
            ''ulimit -n 65536'',
            '''',
            ''# For io_uring'',
            ''sysctl -w kernel.io_uring_disabled=0''] in
     fold (\<lambda>line. say (Info (lit line))) recommendations s)"

definition check_system_limits :: "'w host \<Rightarrow> ('w host_state, unit) io" where
  "check_system_limits h s =
    io_bind (check_file_descriptors h)
      (\<lambda>_ s. (Ok (), print_tuning_recommendations (check_kernel_version h (check_network_tuning h s))))
      (say (Info (lit ''Checking system limits and tuning...'')) s)"

section \<open>Applying the settings\<close>

definition tuning_settings :: "(rstr \<times> rstr) list" where
  "tuning_settings =
    [(lit ''net.core.somaxconn'', lit ''4096''),
     (lit ''net.ipv4.tcp_max_syn_backlog'', lit ''8192''),
     (lit ''net.core.netdev_max_backlog'', lit ''5000''),
     (lit ''net.ipv4.tcp_fin_timeout'', lit ''15''),
     (lit ''net.ipv4.tcp_tw_reuse'', lit ''1''),
     (lit ''net.core.rmem_max'', lit ''16777216''),
     (lit ''net.core.wmem_max'', lit ''16777216'')]"

definition sysctl_path :: "rstr \<Rightarrow> rstr" where
  "sysctl_path key = lit ''/proc/sys/'' @ replace_char 46 [47] key"

definition apply_setting :: "'w host \<Rightarrow> rstr \<times> rstr \<Rightarrow> 'w host_state \<Rightarrow> 'w host_state" where
  "apply_setting h = (\<lambda>(key, val) s.
    case fs_write h (sysctl_path key) val (hs_world s) of
      (Some e, w) \<Rightarrow>
        says [Warn (lit ''Failed to set '' @ key @ lit '': '' @ e),
              Warn (lit ''Try running with sudo or use scripts/tune_sysctl.sh'')]
          (s\<lparr>hs_world := w\<rparr>)
    | (None, w) \<Rightarrow> say (Info (lit ''Set '' @ key @ lit '' = '' @ val)) (s\<lparr>hs_world := w\<rparr>))"

definition apply_tuning :: "'w host \<Rightarrow> ('w host_state, unit) io" where
  "apply_tuning h s = (Ok (), fold (apply_setting h) tuning_settings s)"

section \<open>Further checks\<close>

definition check_transparent_hugepages :: "'w host \<Rightarrow> 'w host_state \<Rightarrow> 'w host_state" where
  "check_transparent_hugepages h s =
    (case read_to_string h (lit ''/sys/kernel/mm/transparent_hugepage/enabled'') (hs_world s) of
       None \<Rightarrow> s
     | Some content \<Rightarrow>
         (let s = say (Info (lit ''Transparent huge pages: '' @ trim content)) s in
          if str_contains (lit ''[never]'') content then
            says [Info (lit ''Consider enabling THP for better performance:''),
                  Info (lit ''  echo 'madvise' > /sys/kernel/mm/transparent_hugepage/enabled'')] s
          else s))"

definition check_cpu_governor :: "'w host \<Rightarrow> 'w host_state \<Rightarrow> 'w host_state" where
  "check_cpu_governor h s =
    (case read_to_string h (lit ''/sys/devices/system/cpu/cpu0/cpufreq/scaling_governor'') (hs_world s) of
       None \<Rightarrow> s
     | Some content \<Rightarrow>
         (let s = say (Info (lit ''CPU governor: '' @ trim content)) s in
          if trim content \<noteq> lit ''performance'' then
            says [Warn (lit ''CPU governor is not set to 'performance'' @ [39]),
                  Warn (lit ''For best performance, set:''),
                  Warn (lit ''  echo 'performance' | sudo tee /sys/devices/system/cpu/cpu*/cpufreq/scaling_governor'')] s
          else s))"

text \<open>One entry of \<open>/proc/irq\<close>; \<open>shown\<close> is the number of lines printed so far (a C \<open>int\<close> in range).\<close>

definition irq_entry ::
    "'w host \<Rightarrow> rstr option option \<Rightarrow> nat \<times> 'w host_state \<Rightarrow> nat \<times> 'w host_state" where
  "irq_entry h entry = (\<lambda>(shown, s).
    case entry of
      None \<Rightarrow> (shown, s)
    | Some name \<Rightarrow>
        (case parse_uint 10 32 (case name of Some n \<Rightarrow> n | None \<Rightarrow> []) of
           None \<Rightarrow> (shown, s)
         | Some irq \<Rightarrow>
             (case read_to_string h (lit ''/proc/irq/'' @ show_nat irq @ lit ''/smp_affinity'')
                     (hs_world s) of
                None \<Rightarrow> (shown, s)
              | Some affinity \<Rightarrow>
                  if shown < 5 then
                    (shown + 1,
                     say (Info (lit ''  IRQ '' @ show_nat irq @ lit '': '' @ trim affinity)) s)
                  else (shown, s))))"

definition check_irq_affinity :: "'w host \<Rightarrow> 'w host_state \<Rightarrow> 'w host_state" where
  "check_irq_affinity h s =
    (let s = say (Info (lit ''IRQ affinity settings:'')) s;
         s = (case read_dir h (lit ''/proc/irq'') (hs_world s) of
                None \<Rightarrow> s
              | Some entries \<Rightarrow> snd (fold (irq_entry h) entries (0, s))) in
     say (Info (lit ''Consider using irqbalance or manual IRQ affinity tuning'')) s)"

section \<open>What the checks say\<close>

lemma fold_say: "fold (\<lambda>x. say (f x)) xs s = says (map f xs) s"
  by (induction xs arbitrary: s) (simp_all add: say_says)

definition param_report :: "'w host \<Rightarrow> 'w \<Rightarrow> rstr \<times> rstr \<times> int \<Rightarrow> log_line list" where
  "param_report h w = (\<lambda>(path, name, recommended).
    case Option.bind (read_to_string h path w) (\<lambda>content. parse_sint 32 (trim content)) of
      None \<Rightarrow> []
    | Some val \<Rightarrow> [param_line name val recommended])"

lemma check_param_says: "check_param h p s = says (param_report h (hs_world s) p) s"
  by (cases p) (simp add: check_param_def param_report_def say_says split: option.split)

lemma check_network_tuning_says:
  "check_network_tuning h s =
    says (Info (lit ''Network tuning parameters:'') #
      concat (map (param_report h (hs_world s)) network_params)) s"
  unfolding check_network_tuning_def
  by (subst fold_says [where g = "\<lambda>p w. param_report h w p"])
     (simp_all add: check_param_says say_says)

definition old_kernel :: "rstr \<Rightarrow> bool" where
  "old_kernel content \<longleftrightarrow> str_contains (lit ''5.1'') content \<or> str_contains (lit ''5.0'') content"

definition kernel_report :: "rstr option \<Rightarrow> log_line list" where
  "kernel_report r =
    (case r of
       None \<Rightarrow> []
     | Some content \<Rightarrow>
         Info (lit ''Kernel version: '' @ trim content) #
         (if old_kernel content then
            [Warn (lit ''Kernel version may have limited io_uring support''),
             Warn (lit ''For full io_uring features, upgrade to kernel 5.11+'')]
          else []))"

lemma check_kernel_version_says:
  "check_kernel_version h s =
    says (kernel_report (read_to_string h (lit ''/proc/version'') (hs_world s))) s"
  by (simp add: check_kernel_version_def kernel_report_def old_kernel_def say_says Let_def
      split: option.split)

lemma param_report_no_warn [simp]: "filter is_warn (param_report h w p) = []"
  by (cases p) (simp add: param_report_def param_line_def Let_def split: option.split)

lemma filter_concat_no_warn: "(\<And>x. filter is_warn (g x) = []) \<Longrightarrow> filter is_warn (concat (map g xs)) = []"
  by (induction xs) simp_all

lemma print_tuning_recommendations_says:
  "\<exists>ls. print_tuning_recommendations s = says ls s \<and> filter is_warn ls = []"
  unfolding print_tuning_recommendations_def Let_def fold_say
  by (intro exI conjI, simp only: says_says) simp

lemma print_tuning_recommendations_sel [simp]:
  "hs_world (print_tuning_recommendations s) = hs_world s"
  "warnings (print_tuning_recommendations s) = warnings s"
  using print_tuning_recommendations_says [of s] by auto

text \<open>The report on system limits.  It changes nothing of the machine and can only fail when the
  descriptor limits cannot be read, in which case nothing further is checked.  Otherwise it warns
  exactly when the soft limit is below 65536, and when the kernel's version text contains 5.1 or
  5.0.\<close>

theorem limits_report:
  "hs_world (snd (check_system_limits h s)) = hs_world s \<and>
   (case getrlimit_nofile h (hs_world s) of
      None \<Rightarrow> check_system_limits h s =
        (Err RlimitFailed, say (Info (lit ''Checking system limits and tuning...'')) s)
    | Some (cur, max_fds) \<Rightarrow> fst (check_system_limits h s) = Ok () \<and>
        warnings (snd (check_system_limits h s)) = warnings s @
          (if cur < 65536 then
             [Warn (lit ''File descriptor soft limit is low. Consider increasing it.''),
              Warn (lit ''Run: ulimit -n 65536'')] else []) @
          filter is_warn (kernel_report (read_to_string h (lit ''/proc/version'') (hs_world s))))"
proof (cases "getrlimit_nofile h (hs_world s)")
  case None
  then show ?thesis
    by (simp add: check_system_limits_def check_file_descriptors_def io_bind_def)
next
  case (Some l)
  obtain cur max_fds where l: "l = (cur, max_fds)" by (rule prod.exhaust)
  from Some l show ?thesis
    by (auto simp: check_system_limits_def check_file_descriptors_def io_bind_def
        check_network_tuning_says check_kernel_version_says say_says filter_concat_no_warn Let_def)
qed

text \<open>The version test also matches newer kernels.  For every kernel 5.11 to 5.19 (and 5.10) the
  report warns that io_uring support is limited and advises to upgrade to 5.11.\<close>

theorem kernel_warning_newer:
  assumes "read_to_string h (lit ''/proc/version'') (hs_world s) =
      Some (pre @ lit ''5.'' @ show_nat minor @ post)"
    and "10 \<le> minor" and "minor < 20"
  shows "Warn (lit ''For full io_uring features, upgrade to kernel 5.11+'')
    \<in> set (hs_log (check_kernel_version h s))"
proof -
  have "show_nat minor = [49, 48 + minor mod 10]"
    using assms(2,3) by (subst show_nat.simps) (simp add: show_nat.simps [of "minor div 10"] div_nat_eqI)
  then have "lit ''5.'' @ show_nat minor = lit ''5.1'' @ [48 + minor mod 10]"
    by (simp add: lit_def)
  then have "pre @ lit ''5.'' @ show_nat minor @ post = pre @ lit ''5.1'' @ ([48 + minor mod 10] @ post)"
    by (metis append.assoc)
  then have "old_kernel (pre @ lit ''5.'' @ show_nat minor @ post)"
    unfolding old_kernel_def str_contains_iff by blast
  with assms(1) show ?thesis
    by (simp add: check_kernel_version_says kernel_report_def)
qed

theorem kernel_warning_newer_witness:
  "Warn (lit ''For full io_uring features, upgrade to kernel 5.11+'')
    \<in> set (hs_log (check_kernel_version map_host
        \<lparr>hs_world = [lit ''/proc/version'' \<mapsto> lit ''Linux version 5.15.0''], hs_log = []\<rparr>))"
proof -
  let ?s = "\<lparr>hs_world = [lit ''/proc/version'' \<mapsto> lit ''Linux version 5.15.0''], hs_log = []\<rparr>"
  have "show_nat 15 = lit ''15''"
    by (simp add: show_nat.simps lit_def)
  then have "lit ''Linux version 5.15.0'' = lit ''Linux version '' @ lit ''5.'' @ show_nat 15 @ lit ''.0''"
    by (simp add: lit_def)
  then have "read_to_string map_host (lit ''/proc/version'') (hs_world ?s) =
      Some (lit ''Linux version '' @ lit ''5.'' @ show_nat 15 @ lit ''.0'')"
    by (simp add: map_host_def)
  from kernel_warning_newer [OF this] show ?thesis by simp
qed

section \<open>Applying and checking\<close>

lemma sysctl_paths:
  "map (sysctl_path \<circ> fst) tuning_settings =
    map lit [''/proc/sys/net/core/somaxconn'', ''/proc/sys/net/ipv4/tcp_max_syn_backlog'',
      ''/proc/sys/net/core/netdev_max_backlog'', ''/proc/sys/net/ipv4/tcp_fin_timeout'',
      ''/proc/sys/net/ipv4/tcp_tw_reuse'', ''/proc/sys/net/core/rmem_max'',
      ''/proc/sys/net/core/wmem_max'']"
  by (simp add: tuning_settings_def sysctl_path_def replace_char_def lit_def)

definition setting_file :: "rstr \<times> rstr \<Rightarrow> rstr \<times> rstr" where
  "setting_file = (\<lambda>(key, val). (sysctl_path key, val))"

lemma apply_setting_written:
  "fs_write h (sysctl_path key) val (hs_world s) = (None, w) \<Longrightarrow>
    apply_setting h (key, val) s = say (Info (lit ''Set '' @ key @ lit '' = '' @ val)) (s\<lparr>hs_world := w\<rparr>)"
  by (simp add: apply_setting_def)

lemma apply_setting_warns:
  "fs_write h (sysctl_path key) val (hs_world s) = (Some e, w) \<Longrightarrow>
    warnings s \<noteq> warnings (apply_setting h (key, val) s) @ ws"
  by (auto simp: apply_setting_def warnings_def say_says dest!: arg_cong [of _ _ length])

lemma apply_settings_warnings: "\<exists>ws. warnings (fold (apply_setting h) xs s) = warnings s @ ws"
proof (induction xs arbitrary: s)
  case (Cons x xs)
  have "\<exists>ws. warnings (apply_setting h x s) = warnings s @ ws"
    by (cases x) (auto simp: apply_setting_def warnings_def say_says split: prod.split option.split)
  with Cons [of "apply_setting h x s"] show ?case by auto
qed simp

text \<open>When no warning was logged every write has worked, and each file holds its value afterwards.\<close>

lemma apply_settings_read:
  assumes "sysctl_law h fs" and "setting_file ` set xs \<subseteq> fs" and "distinct (map (sysctl_path \<circ> fst) xs)"
    and "fold (apply_setting h) xs s = t" and "warnings t = warnings s"
  shows "hs_log t = hs_log s @ map (\<lambda>(key, val). Info (lit ''Set '' @ key @ lit '' = '' @ val)) xs \<and>
    (\<forall>(key, val) \<in> set xs. read_to_string h (sysctl_path key) (hs_world t) = Some (val @ [10])) \<and>
    (\<forall>q \<in> fst ` fs - sysctl_path ` fst ` set xs.
      read_to_string h q (hs_world t) = read_to_string h q (hs_world s))"
  using assms(2-)
proof (induction xs arbitrary: s)
  case (Cons x xs)
  obtain key val where x: "x = (key, val)" by (rule prod.exhaust)
  let ?s1 = "apply_setting h x s"
  have rest: "fold (apply_setting h) xs ?s1 = t" using Cons.prems(3) by simp
  then obtain ws where ws: "warnings t = warnings ?s1 @ ws"
    using apply_settings_warnings [of h xs ?s1] by auto
  have "fst (fs_write h (sysctl_path key) val (hs_world s)) = None"
  proof (rule ccontr)
    assume "fst (fs_write h (sysctl_path key) val (hs_world s)) \<noteq> None"
    then obtain e w where "fs_write h (sysctl_path key) val (hs_world s) = (Some e, w)"
      by (metis not_None_eq prod.collapse)
    from apply_setting_warns [OF this, of ws] ws Cons.prems(4) show False by (simp add: x)
  qed
  then obtain w where w: "fs_write h (sysctl_path key) val (hs_world s) = (None, w)"
    by (metis prod.collapse)
  note step = apply_setting_written [OF w]
  have fs: "(sysctl_path key, val) \<in> fs" and new: "sysctl_path key \<notin> sysctl_path ` fst ` set xs"
    using Cons.prems(1,2) by (auto simp: x setting_file_def)
  then have known: "sysctl_path key \<in> fst ` fs" by force
  from assms(1) fs w have rw: "read_to_string h (sysctl_path key) w = Some (val @ [10])"
    "\<forall>q \<in> fst ` fs. q \<noteq> sysctl_path key \<longrightarrow> read_to_string h q w = read_to_string h q (hs_world s)"
    by (fastforce simp: sysctl_law_def)+
  have "warnings t = warnings ?s1"
    using Cons.prems(4) by (simp add: x step warnings_def)
  with Cons.IH [OF _ _ rest] Cons.prems(1,2) have
    "hs_log t = hs_log ?s1 @ map (\<lambda>(key, val). Info (lit ''Set '' @ key @ lit '' = '' @ val)) xs"
    "\<forall>(key, val) \<in> set xs. read_to_string h (sysctl_path key) (hs_world t) = Some (val @ [10])"
    "\<forall>q \<in> fst ` fs - sysctl_path ` fst ` set xs.
      read_to_string h q (hs_world t) = read_to_string h q (hs_world ?s1)"
    by auto
  with rw known new show ?case
    unfolding x by (auto simp: step)
qed simp

lemma setting_paths:
  "sysctl_path ` fst ` set tuning_settings = set (map (sysctl_path \<circ> fst) tuning_settings)"
  by (simp add: image_image)

lemma setting_paths_distinct: "distinct (map (sysctl_path \<circ> fst) tuning_settings)"
  unfolding sysctl_paths by (simp add: distinct_map)

lemma setting_files:
  "sysctl_path (lit ''net.core.somaxconn'') = lit ''/proc/sys/net/core/somaxconn''"
  "sysctl_path (lit ''net.ipv4.tcp_max_syn_backlog'') = lit ''/proc/sys/net/ipv4/tcp_max_syn_backlog''"
  "sysctl_path (lit ''net.core.netdev_max_backlog'') = lit ''/proc/sys/net/core/netdev_max_backlog''"
  "sysctl_path (lit ''net.ipv4.tcp_fin_timeout'') = lit ''/proc/sys/net/ipv4/tcp_fin_timeout''"
  "sysctl_path (lit ''net.ipv4.tcp_tw_reuse'') = lit ''/proc/sys/net/ipv4/tcp_tw_reuse''"
  by (simp_all add: sysctl_path_def replace_char_def lit_def)

lemma setting_values:
  "parse_sint 32 (trim (lit ''4096'' @ [10])) = Some 4096"
  "parse_sint 32 (trim (lit ''8192'' @ [10])) = Some 8192"
  "parse_sint 32 (trim (lit ''5000'' @ [10])) = Some 5000"
  "parse_sint 32 (trim (lit ''15'' @ [10])) = Some 15"
  "parse_sint 32 (trim (lit ''1'' @ [10])) = Some 1"
  by (simp_all add: trim_def trim_start_def trim_end_def is_whitespace_def lit_def
      parse_sint_def parse_uint_def to_digit_def Let_def)

text \<open>C25: the report contradicts the settings.  Even when every setting is written without an error (no
  warning is logged), so that nothing is left to tune, the report that follows marks the parameter
  \<open>tcp_fin_timeout\<close> as too low: the value applied is 15, the check asks for at least 30.  The other
  four parameters pass.\<close>

theorem tuning_then_report:
  assumes "sysctl_law h (setting_file ` set tuning_settings)"
    and "apply_tuning h s = (r, t)" and "warnings t = warnings s"
  shows "r = Ok () \<and> hs_log (check_network_tuning h t) = hs_log s @
    map (\<lambda>(key, val). Info (lit ''Set '' @ key @ lit '' = '' @ val)) tuning_settings @
    Info (lit ''Network tuning parameters:'') #
    map (\<lambda>(mark, name, val, recommended). Info (lit ''  '' @ mark @ lit '' '' @ lit name @ lit '': '' @
        show_int val @ lit '' (recommended: '' @ show_int recommended @ lit '')''))
      [([10003], ''somaxconn'', 4096, 4096), ([10003], ''tcp_max_syn_backlog'', 8192, 8192),
       ([10003], ''netdev_max_backlog'', 5000, 5000), ([10007], ''tcp_fin_timeout'', 15, 30),
       ([10003], ''tcp_tw_reuse'', 1, 1)]"
proof -
  have r: "r = Ok ()" and t: "fold (apply_setting h) tuning_settings s = t"
    using assms(2) by (simp_all add: apply_tuning_def)
  note runs = apply_settings_read [OF assms(1) subset_refl setting_paths_distinct t assms(3)]
  from runs have files:
    "read_to_string h (lit ''/proc/sys/net/core/somaxconn'') (hs_world t) = Some (lit ''4096'' @ [10])"
    "read_to_string h (lit ''/proc/sys/net/ipv4/tcp_max_syn_backlog'') (hs_world t) = Some (lit ''8192'' @ [10])"
    "read_to_string h (lit ''/proc/sys/net/core/netdev_max_backlog'') (hs_world t) = Some (lit ''5000'' @ [10])"
    "read_to_string h (lit ''/proc/sys/net/ipv4/tcp_fin_timeout'') (hs_world t) = Some (lit ''15'' @ [10])"
    "read_to_string h (lit ''/proc/sys/net/ipv4/tcp_tw_reuse'') (hs_world t) = Some (lit ''1'' @ [10])"
    by (simp_all add: tuning_settings_def setting_files)
  show ?thesis
    using conjunct1 [OF runs]
    by (simp add: r check_network_tuning_says network_params_def param_report_def param_line_def
        files setting_values)
qed

theorem tuning_then_report_witness:
  "\<exists>t. apply_tuning map_host \<lparr>hs_world = Map.empty, hs_log = []\<rparr> = (Ok (), t) \<and>
    Info (lit ''  '' @ [10007] @ lit '' tcp_fin_timeout: '' @ show_int 15 @ lit '' (recommended: '' @
      show_int 30 @ lit '')'') \<in> set (hs_log (check_network_tuning map_host t))"
proof -
  let ?s = "\<lparr>hs_world = Map.empty, hs_log = []\<rparr> :: (rstr \<Rightarrow> rstr option) host_state"
  obtain r t where run: "apply_tuning map_host ?s = (r, t)" by fastforce
  have "warnings (fold (apply_setting map_host) xs u) = warnings u" for xs u
    by (induction xs arbitrary: u) (auto simp: apply_setting_def map_host_def warnings_def)
  with run have "warnings t = warnings ?s" by (auto simp: apply_tuning_def)
  from tuning_then_report [OF map_host_law run this] run show ?thesis
    by (auto simp: lit_def)
qed

section \<open>Interrupts\<close>

definition irq_line :: "'w host \<Rightarrow> 'w \<Rightarrow> rstr option option \<Rightarrow> log_line list" where
  "irq_line h w entry =
    (case Option.bind (Option.bind entry id) (parse_uint 10 32) of
       None \<Rightarrow> []
     | Some irq \<Rightarrow>
         (case read_to_string h (lit ''/proc/irq/'' @ show_nat irq @ lit ''/smp_affinity'') w of
            None \<Rightarrow> []
          | Some affinity \<Rightarrow> [Info (lit ''  IRQ '' @ show_nat irq @ lit '': '' @ trim affinity)]))"

lemma irq_entry_says:
  assumes "n \<le> 5"
  shows "irq_entry h e (n, s) =
    (min 5 (n + length (irq_line h (hs_world s) e)), says (take (5 - n) (irq_line h (hs_world s) e)) s)"
proof -
  have "parse_uint 10 32 [] = None" by (simp add: parse_uint_def)
  then show ?thesis
    using assms
    by (auto simp: irq_entry_def irq_line_def say_says min_def split: option.splits)
qed

lemma fold_irq_entries:
  "n \<le> 5 \<Longrightarrow> snd (fold (irq_entry h) es (n, s)) =
    says (take (5 - n) (concat (map (irq_line h (hs_world s)) es))) s"
proof (induction es arbitrary: n s)
  case (Cons e es)
  have "5 - min 5 (n + k) = 5 - n - k" for k
    using Cons.prems by simp
  with Cons show ?case
    by (simp add: irq_entry_says)
qed simp

text \<open>The interrupt report prints the affinity of the first five interrupts that can be read, in the
  order of the directory, between its two fixed lines, and never more than five however many there
  are.\<close>

theorem irq_report:
  "\<exists>lines. check_irq_affinity h s =
      says (Info (lit ''IRQ affinity settings:'') # lines @
        [Info (lit ''Consider using irqbalance or manual IRQ affinity tuning'')]) s \<and>
    length lines \<le> 5 \<and>
    lines = take 5 (case read_dir h (lit ''/proc/irq'') (hs_world s) of None \<Rightarrow> []
      | Some entries \<Rightarrow> concat (map (irq_line h (hs_world s)) entries))"
  by (auto simp: check_irq_affinity_def say_says fold_irq_entries split: option.split)

end
