(* ===== verification/Cpu_Affinity.thy ===== *)
theory Cpu_Affinity
  imports Host Syscalls Config
begin

text \<open>
  \<open>src/sys/cpu_affinity.rs\<close>: pinning the current thread to a core or a NUMA node, setting and reading
  the affinity mask, and the topology report.  The \<open>core_affinity\<close> and \<open>num_cpus\<close> crates, the
  \<open>cpu_set_t\<close> of the C library and the two scheduler calls are parameters; what the mask operations
  rely on is the predicate \<open>cpu_set_laws\<close>, met by the bit set of 16 words of 64 bits.
\<close>

section \<open>Parameters\<close>

text \<open>
  \<open>cs_set\<close> and \<open>cs_isset\<close> are \<open>CPU_SET\<close> and \<open>CPU_ISSET\<close>; the index is outside of the set from 1024 on,
  where the macros of the crate panic.
\<close>

record 'c cpu_sets =
  cs_zero :: 'c
  cs_set :: "nat \<Rightarrow> 'c \<Rightarrow> 'c res"
  cs_isset :: "nat \<Rightarrow> 'c \<Rightarrow> bool res"

definition cpu_set_laws :: "'c cpu_sets \<Rightarrow> ('c \<Rightarrow> nat set) \<Rightarrow> bool" where
  "cpu_set_laws cs members \<longleftrightarrow>
    members (cs_zero cs) = {} \<and>
    (\<forall>n c. n < 1024 \<longrightarrow> (\<exists>c'. cs_set cs n c = Ok c' \<and> members c' = insert n (members c))) \<and>
    (\<forall>n c. n < 1024 \<longrightarrow> cs_isset cs n c = Ok (n \<in> members c))"

text \<open>
  The scheduler: \<open>sched_setaffinity\<close> gives the result of the call, \<open>sched_getaffinity\<close> the result and
  what it leaves in the caller's set.
\<close>

record ('w, 'c) sched =
  set_for_current :: "u64 \<Rightarrow> 'w \<Rightarrow> bool \<times> 'w"
  get_core_ids :: "'w \<Rightarrow> u64 list option"
  cpus :: "'w \<Rightarrow> u64"
  sched_setaffinity :: "'c \<Rightarrow> 'w \<Rightarrow> i32 \<times> 'w"
  sched_getaffinity :: "'c \<Rightarrow> 'w \<Rightarrow> i32 \<times> 'c"

section \<open>Pinning\<close>

definition pin_to_cores :: "('w, 'c) sched \<Rightarrow> u64 list \<Rightarrow> ('w host_state, unit) io" where
  "pin_to_cores sc cores s =
    (case cores of
       [] \<Rightarrow> (Err NoCores, s)
     | core_id # _ \<Rightarrow>
         (case set_for_current sc core_id (hs_world s) of
            (False, w) \<Rightarrow> (Err AffinityFailed, s\<lparr>hs_world := w\<rparr>)
          | (True, w) \<Rightarrow>
              (Ok (), say (Debug (lit ''Thread pinned to CPU core '' @ show_nat (unat core_id)))
                 (s\<lparr>hs_world := w\<rparr>))))"

definition get_available_cores :: "('w, 'c) sched \<Rightarrow> 'w \<Rightarrow> u64 list" where
  "get_available_cores sc w = (case get_core_ids sc w of Some cores \<Rightarrow> cores | None \<Rightarrow> [])"

text \<open>\<open>(start..end).collect()\<close> on \<open>usize\<close>.\<close>

definition usize_range :: "u64 \<Rightarrow> u64 \<Rightarrow> u64 list" where
  "usize_range a b = map word_of_nat [unat a ..< unat b]"

text \<open>\<open>{:?}\<close> of a list of numbers.\<close>

definition debug_list :: "u64 list \<Rightarrow> rstr" where
  "debug_list xs = 91 # concat (map (\<lambda>(i, x). (if i = 0 then [] else lit '', '') @ show_nat (unat x))
     (enumerate 0 xs)) @ [93]"

text \<open>The multiplication and the addition wrap (the release profile has no overflow checks).\<close>

definition pin_to_numa_node :: "('w, 'c) sched \<Rightarrow> u64 \<Rightarrow> ('w host_state, unit) io" where
  "pin_to_numa_node sc node s =
    (let cores_per_node = cpus sc (hs_world s) div 2;
         start_core = node * cores_per_node;
         end_core = start_core + cores_per_node;
         cores = usize_range start_core end_core in
     if cores = [] then (Err NoNumaCores, s)
     else
       io_bind (pin_to_cores sc (take 1 cores)) (\<lambda>_ s.
         (Ok (), say (Info (lit ''Thread pinned to NUMA node '' @ show_nat (unat node) @
            lit '' (cores '' @ debug_list cores @ lit '')'')) s)) s)"

section \<open>Masks\<close>

text \<open>The loop over the mask with its index.\<close>

fun set_bits_from :: "'c cpu_sets \<Rightarrow> nat \<Rightarrow> bool list \<Rightarrow> 'c \<Rightarrow> 'c res" where
  "set_bits_from cs cpu [] c = Ok c"
| "set_bits_from cs cpu (enabled # rest) c =
    (if enabled then res_bind (cs_set cs cpu c) (set_bits_from cs (cpu + 1) rest)
     else set_bits_from cs (cpu + 1) rest c)"

definition set_affinity_mask ::
    "('w, 'c) sched \<Rightarrow> 'c cpu_sets \<Rightarrow> bool list \<Rightarrow> ('w host_state, unit) io" where
  "set_affinity_mask sc cs cpu_mask s =
    (if 1024 < length cpu_mask then (Err MaskTooLarge, s)
     else
       io_bind (io_res (set_bits_from cs 0 cpu_mask (cs_zero cs))) (\<lambda>cpu_set s.
         let (result, w) = sched_setaffinity sc cpu_set (hs_world s) in
         if result \<noteq> 0 then (Err SetAffinityFailed, s\<lparr>hs_world := w\<rparr>)
         else (Ok (), say (Debug (lit ''CPU affinity mask set'')) (s\<lparr>hs_world := w\<rparr>))) s)"

fun isset_loop :: "'c cpu_sets \<Rightarrow> 'c \<Rightarrow> nat list \<Rightarrow> bool list res" where
  "isset_loop cs c [] = Ok []"
| "isset_loop cs c (cpu # rest) =
    res_bind (cs_isset cs cpu c) (\<lambda>b. res_bind (isset_loop cs c rest) (\<lambda>bs. Ok (b # bs)))"

definition get_affinity_mask ::
    "('w, 'c) sched \<Rightarrow> 'c cpu_sets \<Rightarrow> ('w host_state, bool list) io" where
  "get_affinity_mask sc cs s =
    (let (result, cpu_set) = sched_getaffinity sc (cs_zero cs) (hs_world s) in
     if result \<noteq> 0 then (Err GetAffinityFailed, s)
     else (isset_loop cs cpu_set [0 ..< unat (cpus sc (hs_world s))], s))"

section \<open>Topology\<close>

definition is_node_entry :: "rstr option option \<Rightarrow> bool" where
  "is_node_entry e =
    (case e of Some (Some name) \<Rightarrow> starts_with (lit ''node'') name | _ \<Rightarrow> False)"

definition cache_report :: "'w host \<Rightarrow> nat \<Rightarrow> 'w host_state \<Rightarrow> 'w host_state" where
  "cache_report h cpu s =
    (case read_to_string h
            (lit ''/sys/devices/system/cpu/cpu'' @ show_nat cpu @ lit ''/cache/index0/size'')
            (hs_world s) of
       None \<Rightarrow> s
     | Some content \<Rightarrow>
         say (Info (lit ''CPU '' @ show_nat cpu @ lit '' L1 cache: '' @ trim content)) s)"

definition print_cpu_topology :: "'w host \<Rightarrow> ('w, 'c) sched \<Rightarrow> 'w host_state \<Rightarrow> 'w host_state" where
  "print_cpu_topology h sc s =
    (let num_cpus = cpus sc (hs_world s);
         s = say (Info (lit ''Total CPU cores: '' @ show_nat (unat num_cpus))) s;
         s = (case read_dir h (lit ''/sys/devices/system/node'') (hs_world s) of
                None \<Rightarrow> s
              | Some nodes \<Rightarrow>
                  (let numa_nodes = filter is_node_entry nodes in
                   if numa_nodes \<noteq> [] then
                     say (Info (lit ''NUMA nodes detected: '' @ show_nat (length numa_nodes))) s
                   else s)) in
     fold (cache_report h) [0 ..< unat (min num_cpus 4)] s)"

section \<open>Masks are sets\<close>

definition mask_set :: "nat \<Rightarrow> bool list \<Rightarrow> nat set" where
  "mask_set base ms = {base + i | i. i < length ms \<and> ms ! i}"

lemma mask_set_simps [simp]:
  "mask_set base [] = {}"
  "mask_set base (b # ms) = (if b then {base} else {}) \<union> mask_set (base + 1) ms"
proof -
  show "mask_set base [] = {}" by (simp add: mask_set_def)
  have "x \<in> mask_set base (b # ms) \<longleftrightarrow> x \<in> (if b then {base} else {}) \<union> mask_set (base + 1) ms" for x
  proof
    assume "x \<in> mask_set base (b # ms)"
    then obtain i where i: "x = base + i" "i < Suc (length ms)" "(b # ms) ! i"
      by (auto simp: mask_set_def)
    then show "x \<in> (if b then {base} else {}) \<union> mask_set (base + 1) ms"
      by (cases i) (auto simp: mask_set_def)
  next
    assume "x \<in> (if b then {base} else {}) \<union> mask_set (base + 1) ms"
    then consider "b" "x = base" | i where "x = base + Suc i" "i < length ms" "ms ! i"
      by (auto simp: mask_set_def split: if_splits)
    then show "x \<in> mask_set base (b # ms)"
      by cases (force simp: mask_set_def)+
  qed
  then show "mask_set base (b # ms) = (if b then {base} else {}) \<union> mask_set (base + 1) ms"
    by blast
qed

lemma mask_set_0 [simp]: "n \<in> mask_set 0 ms \<longleftrightarrow> n < length ms \<and> ms ! n"
  by (simp add: mask_set_def)

lemma cpu_set_law:
  assumes "cpu_set_laws cs members" and "n < 1024"
  obtains c' where "cs_set cs n c = Ok c'" "members c' = insert n (members c)"
  using assms unfolding cpu_set_laws_def by blast

lemma cpu_isset_law:
  "cpu_set_laws cs members \<Longrightarrow> n < 1024 \<Longrightarrow> cs_isset cs n c = Ok (n \<in> members c)"
  by (simp add: cpu_set_laws_def)

lemma set_bits_from_members:
  assumes "cpu_set_laws cs members" and "cpu + length ms \<le> 1024"
  shows "\<exists>c'. set_bits_from cs cpu ms c = Ok c' \<and> members c' = members c \<union> mask_set cpu ms"
  using assms(2)
proof (induction ms arbitrary: cpu c)
  case (Cons b ms)
  show ?case
  proof (cases b)
    case True
    from Cons.prems have "cpu < 1024" by simp
    with assms(1) obtain c1 where c1: "cs_set cs cpu c = Ok c1" "members c1 = insert cpu (members c)"
      by (rule cpu_set_law)
    from Cons.IH [of "cpu + 1" c1] Cons.prems obtain c' where
      "set_bits_from cs (cpu + 1) ms c1 = Ok c'" "members c' = members c1 \<union> mask_set (cpu + 1) ms"
      by auto
    with c1 True show ?thesis by simp
  next
    case False
    with Cons.IH [of "cpu + 1" c] Cons.prems show ?thesis by auto
  qed
qed simp

lemma isset_loop_members:
  assumes "cpu_set_laws cs members" and "\<forall>n \<in> set ns. n < 1024"
  shows "isset_loop cs c ns = Ok (map (\<lambda>n. n \<in> members c) ns)"
  using assms(2)
proof (induction ns)
  case (Cons n ns)
  with cpu_isset_law [OF assms(1)] show ?case by simp
qed simp

section \<open>The bit set of the C library\<close>

text \<open>Sixteen words of 64 bits, bit \<open>n mod 64\<close> of word \<open>n div 64\<close> for processor \<open>n\<close>.\<close>

unbundle bit_operations_syntax

definition word_sets :: "(nat \<Rightarrow> u64) cpu_sets" where
  "word_sets =
    \<lparr>cs_zero = (\<lambda>_. 0),
     cs_set = (\<lambda>n c. if n < 1024 then Ok (c(n div 64 := c (n div 64) OR push_bit (n mod 64) 1)) else Panic),
     cs_isset = (\<lambda>n c. if n < 1024 then Ok (c (n div 64) AND push_bit (n mod 64) 1 \<noteq> 0) else Panic)\<rparr>"

definition word_members :: "(nat \<Rightarrow> u64) \<Rightarrow> nat set" where
  "word_members c = {n. bit (c (n div 64)) (n mod 64)}"

lemma and_single_bit:
  assumes "i < 64"
  shows "(w :: u64) AND 2 ^ i \<noteq> 0 \<longleftrightarrow> bit w i"
proof
  assume "w AND 2 ^ i \<noteq> 0"
  then obtain j where "bit (w AND 2 ^ i) j"
    by (metis bit_eqI bit_0_eq bot_apply bot_bool_def)
  then have "bit w j" "j = i" by (auto simp: bit_simps)
  then show "bit w i" by simp
next
  assume "bit w i"
  then have "bit (w AND 2 ^ i) i" using assms by (simp add: bit_simps)
  then show "w AND 2 ^ i \<noteq> 0" by (metis bit_0_eq bot_apply bot_bool_def)
qed

lemma bit_or_single:
  assumes "i < 64"
  shows "bit ((w :: u64) OR 2 ^ i) j \<longleftrightarrow> bit w j \<or> j = i"
  using assms by (auto simp: bit_simps)

lemma word_members_insert:
  "word_members (c(n div 64 := c (n div 64) OR push_bit (n mod 64) 1)) = insert n (word_members c)"
proof (rule set_eqI)
  fix m
  show "m \<in> word_members (c(n div 64 := c (n div 64) OR push_bit (n mod 64) 1)) \<longleftrightarrow>
      m \<in> insert n (word_members c)"
  proof (cases "m div 64 = n div 64")
    case True
    then have "m mod 64 = n mod 64 \<longleftrightarrow> m = n" by (metis div_mult_mod_eq)
    with True show ?thesis by (auto simp: word_members_def bit_or_single)
  next
    case False
    then show ?thesis by (auto simp: word_members_def)
  qed
qed

lemma word_sets_laws: "cpu_set_laws word_sets word_members"
  unfolding cpu_set_laws_def
proof (intro conjI allI impI)
  show "word_members (cs_zero word_sets) = {}"
    by (simp add: word_sets_def word_members_def)
  show "\<exists>c'. cs_set word_sets n c = Ok c' \<and> word_members c' = insert n (word_members c)"
    if "n < 1024" for n c
    using that word_members_insert [of c n] by (simp add: word_sets_def)
  show "cs_isset word_sets n c = Ok (n \<in> word_members c)" if "n < 1024" for n c
    using that by (simp add: word_sets_def and_single_bit word_members_def)
qed

section \<open>Reading back what was set\<close>

text \<open>
  What the kernel documents: a set that was accepted is the affinity from then on, restricted to the
  processors the thread may use, and reading it does not fail.  Nothing is said of \<open>num_cpus::get\<close>:
  on Linux it counts the processors of the thread's affinity (a quota can lower it further), so a
  call of \<open>sched_setaffinity\<close> changes it.
\<close>

definition sched_law ::
    "('w, 'c) sched \<Rightarrow> ('c \<Rightarrow> nat set) \<Rightarrow> nat set \<Rightarrow> bool" where
  "sched_law sc members allowed \<longleftrightarrow>
    (\<forall>c w w'. sched_setaffinity sc c w = (0, w') \<longrightarrow>
       (\<forall>c0. \<exists>c'. sched_getaffinity sc c0 w' = (0, c') \<and> members c' = members c \<inter> allowed))"

lemma set_affinity_mask_cases:
  assumes "cpu_set_laws cs members" and "length ms \<le> 1024" and "set_affinity_mask sc cs ms s = (r, t)"
  obtains c e w where "members c = mask_set 0 ms" "sched_setaffinity sc c (hs_world s) = (e, w)"
    "r = (if e = 0 then Ok () else Err SetAffinityFailed)" "hs_world t = w"
proof -
  have "members (cs_zero cs) = {}" using assms(1) by (simp add: cpu_set_laws_def)
  with set_bits_from_members [OF assms(1), of 0 ms "cs_zero cs"] assms(2) obtain c where c:
    "set_bits_from cs 0 ms (cs_zero cs) = Ok c" "members c = mask_set 0 ms" by auto
  obtain e w where w: "sched_setaffinity sc c (hs_world s) = (e, w)" by (rule prod.exhaust)
  have "r = (if e = 0 then Ok () else Err SetAffinityFailed)" "hs_world t = w"
    using assms(2,3) c(1) w
    by (auto simp: set_affinity_mask_def io_bind_def io_res_def split: if_splits)
  with c(2) w show ?thesis by (rule that)
qed

lemma mask_set_upt: "mask_set 0 (map P [0 ..< n]) = {i. i < n \<and> P i}"
  by (auto simp: mask_set_def)

text \<open>C18: setting the affinity and reading it back.  After a mask was set without an error, the mask read
  has as many entries as \<open>num_cpus\<close> now counts, and below that number it is true exactly for the
  processors that were asked for and that the thread may use.  What lies above the number is lost:
  where \<open>num_cpus\<close> counts the affinity itself, as on Linux, the mask read is the affinity only when
  that is an initial segment of the processors.\<close>

theorem affinity_roundtrip:
  assumes "cpu_set_laws cs members" and "sched_law sc members allowed"
    and "set_affinity_mask sc cs ms s = (Ok (), t)"
    and "cpus sc (hs_world t) \<le> 1024"
  shows "let n = unat (cpus sc (hs_world t)); eff = mask_set 0 ms \<inter> allowed in
    \<exists>bits. get_affinity_mask sc cs t = (Ok bits, t) \<and> length bits = n \<and>
      mask_set 0 bits = eff \<inter> {..<n} \<and>
      (n = card eff \<longrightarrow> (mask_set 0 bits = eff \<longleftrightarrow> eff = {..<n}))"
proof -
  define n where "n = unat (cpus sc (hs_world t))"
  define eff where "eff = mask_set 0 ms \<inter> allowed"
  have len: "length ms \<le> 1024"
    using assms(3) by (auto simp: set_affinity_mask_def split: if_splits)
  from set_affinity_mask_cases [OF assms(1) len assms(3)] obtain c w where c:
    "members c = mask_set 0 ms" "sched_setaffinity sc c (hs_world s) = (0, w)" "hs_world t = w"
    by (metis res.distinct(1))
  with assms(2) obtain c' where g:
    "sched_getaffinity sc (cs_zero cs) (hs_world t) = (0, c')" "members c' = eff"
    unfolding sched_law_def eff_def by metis
  have "n \<le> 1024"
    using assms(4) by (simp add: n_def word_le_nat_alt)
  then have "\<forall>i \<in> set [0 ..< n]. i < 1024" by auto
  from isset_loop_members [OF assms(1) this, of c'] g
  have run: "get_affinity_mask sc cs t = (Ok (map (\<lambda>i. i \<in> eff) [0 ..< n]), t)"
    by (simp add: get_affinity_mask_def n_def)
  have bits: "mask_set 0 (map (\<lambda>i. i \<in> eff) [0 ..< n]) = eff \<inter> {..<n}"
    by (auto simp: mask_set_upt)
  have "eff \<inter> {..<n} = eff \<longleftrightarrow> eff = {..<n}" if "n = card eff"
  proof
    assume "eff \<inter> {..<n} = eff"
    then show "eff = {..<n}" using that by (intro card_subset_eq) auto
  qed simp
  with run bits show ?thesis
    by (simp flip: n_def eff_def)
qed

text \<open>A machine of two processors; the world is the affinity, which \<open>num_cpus\<close> counts.\<close>

definition counting_duo :: "((nat \<Rightarrow> u64), (nat \<Rightarrow> u64)) sched" where
  "counting_duo = \<lparr>set_for_current = (\<lambda>_ w. (True, w)), get_core_ids = (\<lambda>_. Some [0, 1]),
    cpus = (\<lambda>w. (if bit (w 0) 0 then 1 else 0) + (if bit (w 0) 1 then 1 else 0)),
    sched_setaffinity = (\<lambda>c w. if c 0 AND 3 = 0 then (-1, w) else (0, \<lambda>i. if i = 0 then c 0 AND 3 else 0)),
    sched_getaffinity = (\<lambda>_ w. (0, w))\<rparr>"

lemma counting_duo_law: "sched_law counting_duo word_members {0, 1}"
proof -
  have "word_members (\<lambda>i. if i = 0 then c 0 AND 3 else 0) = word_members c \<inter> {0, 1}" for c
  proof (rule set_eqI)
    fix n
    have "bit (3 :: u64) k \<longleftrightarrow> k = 0 \<or> k = 1" for k
      by (cases k; simp add: bit_Suc) (metis bit_0_eq bot_apply bot_bool_def bit_1_iff)
    then show "n \<in> word_members (\<lambda>i. if i = 0 then c 0 AND 3 else 0) \<longleftrightarrow> n \<in> word_members c \<inter> {0, 1}"
      by (cases "n < 64") (auto simp: word_members_def bit_and_iff div_eq_0_iff)
  qed
  then show ?thesis by (simp add: sched_law_def counting_duo_def)
qed

theorem affinity_roundtrip_witness:
  "\<exists>t. set_affinity_mask counting_duo word_sets [False, True] \<lparr>hs_world = (\<lambda>i. if i = 0 then 3 else 0), hs_log = []\<rparr> =
      (Ok (), t) \<and>
    get_affinity_mask counting_duo word_sets t = (Ok [False], t)"
proof -
  let ?s = "\<lparr>hs_world = (\<lambda>i. if i = 0 then 3 else 0), hs_log = []\<rparr>"
  obtain t where run: "set_affinity_mask counting_duo word_sets [False, True] ?s = (Ok (), t)"
    "hs_world t = (\<lambda>i. if i = 0 then 2 else 0)"
    by (auto simp: set_affinity_mask_def io_bind_def io_res_def word_sets_def counting_duo_def fun_eq_iff)
  have n: "cpus counting_duo (hs_world t) = 1" "cpus counting_duo (hs_world t) \<le> 1024"
    by (simp_all add: run(2) counting_duo_def)
  have "mask_set 0 [False, True] = {1}"
    by (auto simp: mask_set_def less_Suc_eq numeral_2_eq_2)
  with affinity_roundtrip [OF word_sets_laws counting_duo_law run(1) n(2)] n(1) obtain bits where
    "get_affinity_mask counting_duo word_sets t = (Ok bits, t)" "length bits = 1" "mask_set 0 bits = {}"
    by (auto simp: Let_def)
  moreover from this have "bits = [False]"
    by (cases bits) (auto simp: mask_set_def)
  ultimately show ?thesis using run(1) by blast
qed

text \<open>A machine of two processors whose affinity is not looked at.\<close>

definition duo :: "((nat \<Rightarrow> u64), (nat \<Rightarrow> u64)) sched" where
  "duo = \<lparr>set_for_current = (\<lambda>_ w. (True, w)), get_core_ids = (\<lambda>_. Some [0, 1]), cpus = (\<lambda>_. 2),
    sched_setaffinity = (\<lambda>c _. (0, c)), sched_getaffinity = (\<lambda>_ w. (0, w))\<rparr>"

text \<open>C33: no mask makes the code index outside of the set.  Setting a mask never panics; a mask of more
  than 1024 entries is refused before any system call, and no other mask is; an error of the call
  is the only other outcome than success.\<close>

theorem affinity_mask_bounds:
  assumes "cpu_set_laws cs members" and "cpus sc (hs_world s) \<le> 1024"
  shows "(case set_affinity_mask sc cs ms s of
      (Ok _, _) \<Rightarrow> length ms \<le> 1024
    | (Err e, t) \<Rightarrow> if 1024 < length ms then e = MaskTooLarge \<and> t = s else e = SetAffinityFailed
    | (Panic, _) \<Rightarrow> False) \<and>
   (case get_affinity_mask sc cs s of
      (Ok bits, t) \<Rightarrow> t = s \<and> length bits = unat (cpus sc (hs_world s))
    | (Err e, t) \<Rightarrow> t = s \<and> e = GetAffinityFailed
    | (Panic, _) \<Rightarrow> False)"
proof
  obtain r t where run: "set_affinity_mask sc cs ms s = (r, t)" by (rule prod.exhaust)
  show "case set_affinity_mask sc cs ms s of
      (Ok _, _) \<Rightarrow> length ms \<le> 1024
    | (Err e, t) \<Rightarrow> if 1024 < length ms then e = MaskTooLarge \<and> t = s else e = SetAffinityFailed
    | (Panic, _) \<Rightarrow> False"
  proof (cases "1024 < length ms")
    case True
    then show ?thesis by (simp add: set_affinity_mask_def)
  next
    case False
    then have "length ms \<le> 1024" by simp
    from set_affinity_mask_cases [OF assms(1) this run] obtain e where
      "r = (if e = (0 :: i32) then Ok () else Err SetAffinityFailed)" by blast
    with False run show ?thesis by auto
  qed
  obtain e c where g: "sched_getaffinity sc (cs_zero cs) (hs_world s) = (e, c)" by (rule prod.exhaust)
  have "unat (cpus sc (hs_world s)) \<le> 1024" using assms(2) by (simp add: word_le_nat_alt)
  then have "\<forall>n \<in> set [0 ..< unat (cpus sc (hs_world s))]. n < 1024" by auto
  from isset_loop_members [OF assms(1) this, of c] g
  show "case get_affinity_mask sc cs s of
      (Ok bits, t) \<Rightarrow> t = s \<and> length bits = unat (cpus sc (hs_world s))
    | (Err e, t) \<Rightarrow> t = s \<and> e = GetAffinityFailed
    | (Panic, _) \<Rightarrow> False"
    by (simp add: get_affinity_mask_def)
qed

theorem affinity_mask_bounds_witness:
  "(case set_affinity_mask duo word_sets (replicate 1025 False) \<lparr>hs_world = (\<lambda>_. 0), hs_log = []\<rparr> of
      (Ok _, _) \<Rightarrow> False
    | (Err e, t) \<Rightarrow> e = MaskTooLarge \<and> t = \<lparr>hs_world = (\<lambda>_. 0), hs_log = []\<rparr>
    | (Panic, _) \<Rightarrow> False)"
proof -
  let ?s = "\<lparr>hs_world = (\<lambda>_. 0), hs_log = []\<rparr>"
  have "cpus duo (hs_world ?s) \<le> 1024" by (simp add: duo_def)
  from affinity_mask_bounds [OF word_sets_laws this, of "replicate 1025 False"] show ?thesis
    by (simp split: prod.splits res.splits)
qed

section \<open>NUMA nodes\<close>

lemma usize_range_Cons:
  assumes "unat a < unat b"
  shows "\<exists>rest. usize_range a b = a # rest"
  using assms by (simp add: usize_range_def upt_conv_Cons)

text \<open>Pinning to a node, as far as the arithmetic does not wrap.  With fewer than two processors every
  node is refused without a system call; otherwise the thread is pinned to the first core of the
  node's half, core \<open>node * (n div 2)\<close>, and only to that one although the message names them all; the
  node is not checked, so that a node past the last one asks for a core that does not exist.\<close>

theorem numa_pin:
  assumes "unat node * (unat (cpus sc (hs_world s)) div 2) + unat (cpus sc (hs_world s)) div 2 < 2 ^ 64"
  shows "pin_to_numa_node sc node s =
    (if cpus sc (hs_world s) < 2 then (Err NoNumaCores, s)
     else
       let core = unat node * (unat (cpus sc (hs_world s)) div 2);
           cores = map word_of_nat [core ..< core + unat (cpus sc (hs_world s)) div 2] in
       case set_for_current sc (word_of_nat core) (hs_world s) of
         (False, w) \<Rightarrow> (Err AffinityFailed, s\<lparr>hs_world := w\<rparr>)
       | (True, w) \<Rightarrow> (Ok (), says [Debug (lit ''Thread pinned to CPU core '' @ show_nat core),
            Info (lit ''Thread pinned to NUMA node '' @ show_nat (unat node) @ lit '' (cores '' @
              debug_list cores @ lit '')'')] (s\<lparr>hs_world := w\<rparr>)))"
proof -
  define n where "n = unat (cpus sc (hs_world s)) div 2"
  have n: "unat (cpus sc (hs_world s) div 2) = n" by (simp add: n_def unat_div)
  have core: "unat (node * (cpus sc (hs_world s) div 2)) = unat node * n"
    using assms n by (subst unat_mult_lem [THEN iffD1]) (simp_all add: n_def)
  have fin: "unat (node * (cpus sc (hs_world s) div 2) + cpus sc (hs_world s) div 2) = unat node * n + n"
    using assms n core by (subst unat_add_no_wrap) (simp_all add: n_def)
  have small: "cpus sc (hs_world s) < 2 \<longleftrightarrow> n = 0"
    by (simp add: n_def word_less_nat_alt div_eq_0_iff)
  have range: "usize_range (node * (cpus sc (hs_world s) div 2))
      (node * (cpus sc (hs_world s) div 2) + cpus sc (hs_world s) div 2) =
      map word_of_nat [unat node * n ..< unat node * n + n]"
    by (simp add: usize_range_def core fin)
  show ?thesis
  proof (cases "n = 0")
    case True
    with small range show ?thesis by (simp add: pin_to_numa_node_def Let_def)
  next
    case False
    then have "[unat node * n ..< unat node * n + n] = unat node * n # [Suc (unat node * n) ..< unat node * n + n]"
      by (simp add: upt_conv_Cons)
    moreover have "unat node * n < 2 ^ 64" using assms by (simp add: n_def)
    then have "unat (word_of_nat (unat node * n) :: u64) = unat node * n"
      by (rule unat_of_nat_u64)
    ultimately show ?thesis
      using False small range
      by (simp add: pin_to_numa_node_def pin_to_cores_def io_bind_def say_says Let_def
          flip: n_def split: prod.split bool.split)
  qed
qed

theorem numa_pin_witness:
  "pin_to_numa_node duo 3 \<lparr>hs_world = (\<lambda>_. 0), hs_log = []\<rparr> =
    (Ok (), says [Debug (lit ''Thread pinned to CPU core '' @ show_nat 3),
        Info (lit ''Thread pinned to NUMA node '' @ show_nat 3 @ lit '' (cores '' @
          debug_list [3] @ lit '')'')] \<lparr>hs_world = (\<lambda>_. 0), hs_log = []\<rparr>)"
proof -
  let ?s = "\<lparr>hs_world = (\<lambda>_. 0), hs_log = []\<rparr>"
  have "unat (3 :: u64) * (unat (cpus duo (hs_world ?s)) div 2) + unat (cpus duo (hs_world ?s)) div 2 < 2 ^ 64"
    by (simp add: duo_def)
  from numa_pin [OF this] show ?thesis
    by (simp add: duo_def Let_def)
qed

end
