(* ===== verification/Dpdk.thy ===== *)
theory Dpdk
  imports Host Syscalls
begin

text \<open>
  \<open>src/net/dpdk_adapter.rs\<close>: the placeholder adapter for kernel-bypass networking and the check that
  huge pages are reserved.  Whether the build has the feature is a parameter.
\<close>

section \<open>The adapter\<close>

record dpdk_adapter =
  port_id :: u16
  queue_id :: u16
  initialized :: bool

record dpdk_packet =
  pk_data :: "byte list"
  pk_len :: u64

definition DpdkAdapter_new :: "bool \<Rightarrow> u16 \<Rightarrow> u16 \<Rightarrow> ('w host_state, dpdk_adapter) io" where
  "DpdkAdapter_new feature port queue s =
    (if feature then
       (Ok \<lparr>port_id = port, queue_id = queue, initialized = False\<rparr>,
        says [Warn (lit ''DPDK adapter is a placeholder - requires DPDK libraries and proper FFI bindings''),
              Info (lit ''DPDK would require root privileges and huge pages configured''),
              Info (lit ''Example setup: echo 1024 > /sys/kernel/mm/hugepages/hugepages-2048kB/nr_hugepages'')] s)
     else (Err DpdkDisabled, s))"

type_synonym 'w dpdk_state = "dpdk_adapter \<times> 'w host_state"

definition configure_port :: "('w dpdk_state, unit) io" where
  "configure_port = (\<lambda>(d, s).
    (Ok (), (d, say (Info (lit ''DPDK port '' @ show_nat (unat (port_id d)) @
       lit '' configuration (placeholder)'')) s)))"

definition dpdk_start :: "('w dpdk_state, unit) io" where
  "dpdk_start = (\<lambda>(d, s).
    (Ok (), (d\<lparr>initialized := True\<rparr>,
       say (Info (lit ''Starting DPDK port '' @ show_nat (unat (port_id d)) @ lit '' (placeholder)'')) s)))"

definition rx_burst :: "u16 \<Rightarrow> ('w dpdk_state, dpdk_packet list) io" where
  "rx_burst max_packets = io_return []"

definition tx_burst :: "dpdk_packet list \<Rightarrow> ('w dpdk_state, u64) io" where
  "tx_burst packets = io_return 0"

definition free_packets :: "dpdk_packet list \<Rightarrow> ('w dpdk_state, unit) io" where
  "free_packets packets = io_return ()"

section \<open>Huge pages\<close>

text \<open>
  The loop over the lines of \<open>/proc/meminfo\<close>: the first line of the right name whose second word is a
  number decides; a line of that name without one is passed over.
\<close>

fun hugepages_loop :: "rstr list \<Rightarrow> bool" where
  "hugepages_loop [] = False"
| "hugepages_loop (line # rest) =
    (if starts_with (lit ''HugePages_Total:'') line then
       (case split_whitespace line of
          _ # number # _ \<Rightarrow>
            (case parse_uint 10 32 number of
               Some n \<Rightarrow> 0 < n
             | None \<Rightarrow> hugepages_loop rest)
        | _ \<Rightarrow> hugepages_loop rest)
     else hugepages_loop rest)"

definition check_dpdk_available :: "bool \<Rightarrow> 'w host \<Rightarrow> 'w \<Rightarrow> bool" where
  "check_dpdk_available feature h w =
    (feature \<and>
     (case read_to_string h (lit ''/proc/meminfo'') w of
        Some content \<Rightarrow> hugepages_loop (str_lines content)
      | None \<Rightarrow> False))"

text \<open>The lines printed as instructions.\<close>

definition dpdk_setup_instructions :: "rstr list" where
  "dpdk_setup_instructions = map lit
    ['''', ''DPDK Setup Instructions:'', ''========================'', '''',
     ''1. Reserve huge pages (requires root):'',
     ''   echo 1024 > /sys/kernel/mm/hugepages/hugepages-2048kB/nr_hugepages'', '''',
     ''2. Mount huge pages:'', ''   mkdir -p /mnt/huge'',
     ''   mount -t hugetlbfs nodev /mnt/huge'', '''',
     ''3. Bind NIC to DPDK-compatible driver:'', ''   modprobe vfio-pci'',
     ''   dpdk-devbind.py --bind=vfio-pci <PCI_ADDRESS>'', '''',
     ''4. Run with DPDK feature:'', ''   sudo ./target/release/server --features dpdk'', '''',
     ''5. Required privileges:'', ''   - Root or CAP_SYS_ADMIN for huge pages'',
     ''   - Access to /dev/vfio/* devices'', '''',
     ''For more information: https://doc.dpdk.org/guides/linux_gsg/'', '''']"

lemma hugepages_loop_skip:
  "\<forall>l \<in> set ls. \<not> starts_with (lit ''HugePages_Total:'') l \<Longrightarrow>
    hugepages_loop (ls @ rest) = hugepages_loop rest"
  by (induction ls) simp_all

lemma tag_words:
  assumes "gap \<noteq> []" and "\<forall>c \<in> set gap. is_whitespace c"
  shows "split_whitespace (lit ''HugePages_Total:'' @ gap @ show_nat n) =
    [lit ''HugePages_Total:'', show_nat n]"
proof -
  obtain g gs where gap: "gap = g # gs" using assms(1) by (cases gap) auto
  have digits: "\<forall>c \<in> set (show_nat n). \<not> is_whitespace c"
  proof
    fix c
    assume "c \<in> set (show_nat n)"
    then have "48 \<le> c" "c \<le> 57" using show_nat_digits [of c n] by auto
    then show "\<not> is_whitespace c" by (simp add: is_whitespace_def)
  qed
  have tag: "\<forall>c \<in> set (lit ''HugePages_Total:''). \<not> is_whitespace c" "lit ''HugePages_Total:'' \<noteq> []"
    by (simp_all add: lit_def is_whitespace_def)
  have "split_whitespace (lit ''HugePages_Total:'' @ g # (gs @ show_nat n)) =
      lit ''HugePages_Total:'' # split_whitespace (gs @ show_nat n)"
    by (rule split_whitespace_word [OF tag]) (use assms(2) gap in simp)
  also have "split_whitespace (gs @ show_nat n) = [show_nat n]"
    using assms(2) gap digits by (simp add: split_whitespace_skip split_whitespace_last)
  finally show ?thesis by (simp add: gap)
qed

lemma show_nat_last_not_cr: "last (show_nat n) \<noteq> 13"
  using show_nat_digits [of "last (show_nat n)" n] by auto

text \<open>DPDK is reported as available exactly when the build has it and huge pages are reserved.  For a
  \<open>/proc/meminfo\<close> whose lines before the total are about something else, the number printed there
  decides, whatever white space stands before it; a number that does not fit 32 bits is passed over.\<close>

theorem dpdk_available:
  assumes "read_to_string h (lit ''/proc/meminfo'') w =
      Some (concat (map (\<lambda>l. l @ [10]) (before @ (lit ''HugePages_Total:'' @ gap @ show_nat n) # after)))"
    and "\<forall>l \<in> set (before @ after). 10 \<notin> set l \<and> (l = [] \<or> last l \<noteq> 13) \<and>
      \<not> starts_with (lit ''HugePages_Total:'') l"
    and "gap \<noteq> []" and "\<forall>c \<in> set gap. is_whitespace c \<and> c \<noteq> 10"
  shows "check_dpdk_available feature h w \<longleftrightarrow> feature \<and> 0 < n \<and> n < 2 ^ 32"
proof -
  let ?line = "lit ''HugePages_Total:'' @ gap @ show_nat n"
  have "10 \<notin> set (show_nat n)" using show_nat_digits [of 10 n] by auto
  then have "10 \<notin> set ?line" using assms(4) by (auto simp: lit_def)
  moreover have "last ?line \<noteq> 13" using show_nat_last_not_cr [of n] by simp
  ultimately have "str_lines (concat (map (\<lambda>l. l @ [10]) (before @ ?line # after))) = before @ ?line # after"
    using assms(2) by (intro str_lines_concat) auto
  moreover have "hugepages_loop (before @ ?line # after) = hugepages_loop (?line # after)"
    using assms(2) by (intro hugepages_loop_skip) auto
  moreover have "hugepages_loop after = False"
    using assms(2) hugepages_loop_skip [of after "[]"] by auto
  ultimately show ?thesis
    using assms(1,3,4) by (simp add: check_dpdk_available_def tag_words parse_uint_show_nat)
qed

theorem dpdk_available_witness:
  "check_dpdk_available True map_host
    [lit ''/proc/meminfo'' \<mapsto> lit ''MemFree: 1 kB'' @ [10] @ lit ''HugePages_Total:  1024'' @ [10]]"
proof -
  let ?w = "[lit ''/proc/meminfo'' \<mapsto> lit ''MemFree: 1 kB'' @ [10] @ lit ''HugePages_Total:  1024'' @ [10]]"
  have n: "show_nat 1024 = lit ''1024''" by (simp add: show_nat.simps lit_def)
  have "read_to_string map_host (lit ''/proc/meminfo'') ?w =
      Some (concat (map (\<lambda>l. l @ [10]) ([lit ''MemFree: 1 kB''] @
        (lit ''HugePages_Total:'' @ [32, 32] @ show_nat 1024) # [])))"
    by (simp add: map_host_def n) (simp add: lit_def)
  from dpdk_available [OF this, of True] show ?thesis
    by (simp add: is_whitespace_def lit_def)
qed

section \<open>The placeholder\<close>

text \<open>Operations in any order: the port and queue stay, and starting is what marks the adapter.\<close>

datatype dpdk_op = DConfigure | DStart | DRx u16 | DTx "dpdk_packet list" | DFree "dpdk_packet list"

fun dpdk_exec :: "dpdk_op \<Rightarrow> 'w dpdk_state \<Rightarrow> 'w dpdk_state" where
  "dpdk_exec DConfigure s = snd (configure_port s)"
| "dpdk_exec DStart s = snd (dpdk_start s)"
| "dpdk_exec (DRx n) s = snd (rx_burst n s)"
| "dpdk_exec (DTx ps) s = snd (tx_burst ps s)"
| "dpdk_exec (DFree ps) s = snd (free_packets ps s)"

lemma dpdk_exec_adapter:
  "fst (dpdk_exec op s) = (if op = DStart then (fst s)\<lparr>initialized := True\<rparr> else fst s)"
  by (cases s; cases op)
     (simp_all add: configure_port_def dpdk_start_def rx_burst_def tx_burst_def free_packets_def io_return_def)

lemma dpdk_run_adapter:
  "fst (fold dpdk_exec ops s) =
    (if DStart \<in> set ops then (fst s)\<lparr>initialized := True\<rparr> else fst s)"
  by (induction ops arbitrary: s) (auto simp: dpdk_exec_adapter simp del: dpdk_exec.simps)

end
