(* ===== verification/Io_Uring.thy ===== *)
theory Io_Uring
  imports Host Epoll
begin

text \<open>
  \<open>src/net/io_uring.rs\<close>: the io_uring backend.  The ring of the \<open>io-uring\<close> crate is a parameter, a
  record of its operations; what the theorems rely on (\<open>uring_laws\<close>) is the documented behaviour of
  the two queues, stated over an abstract view of a ring.  Buffers are passed by address.
\<close>

section \<open>Submission entries and the ring\<close>

datatype sqe_op =
    OpRead raw_fd u64 u32 u64
  | OpWrite raw_fd u64 u32 u64
  | OpAccept raw_fd u64 u64
  | OpSplice raw_fd i64 raw_fd i64 u32

record sqe =
  sq_op :: sqe_op
  sq_user_data :: u64

text \<open>
  \<open>ur_push\<close> gives the new ring, or nothing when the submission queue is full; \<open>ur_completion\<close> takes all
  entries out of the completion queue.
\<close>

record ('r, 'w) uring =
  ur_new :: "u32 \<Rightarrow> 'w \<Rightarrow> (rstr + 'r) \<times> 'w"
  ur_push :: "sqe \<Rightarrow> 'r \<Rightarrow> 'r option"
  ur_submit :: "'r \<Rightarrow> u64 option \<times> 'r"
  ur_submit_and_wait :: "u64 \<Rightarrow> 'r \<Rightarrow> u64 option \<times> 'r"
  ur_completion :: "'r \<Rightarrow> (u64 \<times> i32) list \<times> 'r"

definition is_available :: "bool \<Rightarrow> ('r, 'w) uring \<Rightarrow> 'w host_state \<Rightarrow> bool \<times> 'w host_state" where
  "is_available feature ur s =
    (if feature then
       (case ur_new ur 8 (hs_world s) of
          (Inr _, w) \<Rightarrow> (True, say (Info (lit ''io_uring is available'')) (s\<lparr>hs_world := w\<rparr>))
        | (Inl e, w) \<Rightarrow> (False, say (Debug (lit ''io_uring not available: '' @ e)) (s\<lparr>hs_world := w\<rparr>)))
     else (False, s))"

section \<open>The backend\<close>

record 'r uring_backend =
  ub_ring :: 'r
  ub_queue_depth :: u32

definition IoUringBackend_new ::
    "bool \<Rightarrow> ('r, 'w) uring \<Rightarrow> u32 \<Rightarrow> ('w host_state, 'r uring_backend) io" where
  "IoUringBackend_new feature ur queue_depth s =
    (if feature then
       (case ur_new ur queue_depth (hs_world s) of
          (Inl e, w) \<Rightarrow> (Err IoUringCreateFailed, s\<lparr>hs_world := w\<rparr>)
        | (Inr ring, w) \<Rightarrow>
            (Ok \<lparr>ub_ring = ring, ub_queue_depth = queue_depth\<rparr>,
             say (Info (lit ''io_uring initialized with queue depth: '' @ show_nat (unat queue_depth)))
               (s\<lparr>hs_world := w\<rparr>)))
     else (Err IoUringDisabled, s))"

text \<open>What the four submitting operations share: push the entry, then submit.\<close>

definition push_and_submit :: "('r, 'w) uring \<Rightarrow> sqe \<Rightarrow> ('r uring_backend, unit) io" where
  "push_and_submit ur e b =
    (case ur_push ur e (ub_ring b) of
       None \<Rightarrow> (Err PushFailed, b)
     | Some r \<Rightarrow>
         (case ur_submit ur r of
            (None, r) \<Rightarrow> (Err SubmitFailed, b\<lparr>ub_ring := r\<rparr>)
          | (Some _, r) \<Rightarrow> (Ok (), b\<lparr>ub_ring := r\<rparr>)))"

definition read_entry :: "raw_fd \<Rightarrow> u64 \<Rightarrow> u64 \<Rightarrow> u64 \<Rightarrow> sqe" where
  "read_entry fd buf len off = \<lparr>sq_op = OpRead fd buf (ucast len) off, sq_user_data = fd_to_u64 fd\<rparr>"

definition write_entry :: "raw_fd \<Rightarrow> u64 \<Rightarrow> u64 \<Rightarrow> u64 \<Rightarrow> sqe" where
  "write_entry fd buf len off = \<lparr>sq_op = OpWrite fd buf (ucast len) off, sq_user_data = fd_to_u64 fd\<rparr>"

definition accept_entry :: "raw_fd \<Rightarrow> u64 \<Rightarrow> u64 \<Rightarrow> sqe" where
  "accept_entry listen_fd addr addrlen =
    \<lparr>sq_op = OpAccept listen_fd addr addrlen, sq_user_data = fd_to_u64 listen_fd\<rparr>"

text \<open>\<open>offset as i64\<close> keeps the bits; the output has no offset, which is -1.\<close>

definition sendfile_entry :: "raw_fd \<Rightarrow> raw_fd \<Rightarrow> u64 \<Rightarrow> u64 \<Rightarrow> sqe" where
  "sendfile_entry out_fd in_fd off len =
    \<lparr>sq_op = OpSplice in_fd off out_fd (-1) (ucast len), sq_user_data = fd_to_u64 out_fd\<rparr>"

definition submit_read ::
    "('r, 'w) uring \<Rightarrow> raw_fd \<Rightarrow> u64 \<Rightarrow> u64 \<Rightarrow> u64 \<Rightarrow> ('r uring_backend, unit) io" where
  "submit_read ur fd buf len off = push_and_submit ur (read_entry fd buf len off)"

definition submit_write ::
    "('r, 'w) uring \<Rightarrow> raw_fd \<Rightarrow> u64 \<Rightarrow> u64 \<Rightarrow> u64 \<Rightarrow> ('r uring_backend, unit) io" where
  "submit_write ur fd buf len off = push_and_submit ur (write_entry fd buf len off)"

definition submit_accept ::
    "('r, 'w) uring \<Rightarrow> raw_fd \<Rightarrow> u64 \<Rightarrow> u64 \<Rightarrow> ('r uring_backend, unit) io" where
  "submit_accept ur listen_fd addr addrlen = push_and_submit ur (accept_entry listen_fd addr addrlen)"

definition submit_sendfile ::
    "('r, 'w) uring \<Rightarrow> raw_fd \<Rightarrow> raw_fd \<Rightarrow> u64 \<Rightarrow> u64 \<Rightarrow> ('r uring_backend, unit) io" where
  "submit_sendfile ur out_fd in_fd off len = push_and_submit ur (sendfile_entry out_fd in_fd off len)"

definition wait_for_completion ::
    "('r, 'w) uring \<Rightarrow> ('r uring_backend, (u64 \<times> i32) list) io" where
  "wait_for_completion ur b =
    (case ur_submit_and_wait ur 1 (ub_ring b) of
       (None, r) \<Rightarrow> (Err CompletionWaitFailed, b\<lparr>ub_ring := r\<rparr>)
     | (Some _, r) \<Rightarrow>
         (let (completions, r) = ur_completion ur r in (Ok completions, b\<lparr>ub_ring := r\<rparr>)))"

definition batch_submit :: "('r, 'w) uring \<Rightarrow> ('r uring_backend, u64) io" where
  "batch_submit ur b =
    (case ur_submit ur (ub_ring b) of
       (None, r) \<Rightarrow> (Err BatchSubmitFailed, b\<lparr>ub_ring := r\<rparr>)
     | (Some n, r) \<Rightarrow> (Ok n, b\<lparr>ub_ring := r\<rparr>))"

section \<open>What a ring promises\<close>

text \<open>
  The view of a ring: the entries queued, the entries the kernel has taken, in order, the completions
  ready to be read, and the completions already read.
\<close>

record ring_view =
  v_pending :: "sqe list"
  v_taken :: "sqe list"
  v_ready :: "(u64 \<times> i32) list"
  v_reaped :: "(u64 \<times> i32) list"

definition advances :: "ring_view \<Rightarrow> nat \<Rightarrow> ring_view \<Rightarrow> bool" where
  "advances v n v' \<longleftrightarrow>
    n \<le> length (v_pending v) \<and> v_pending v' = drop n (v_pending v) \<and>
    v_taken v' = v_taken v @ take n (v_pending v) \<and>
    (\<exists>new. v_ready v' = v_ready v @ new) \<and> v_reaped v' = v_reaped v"

definition push_spec :: "('r, 'w) uring \<Rightarrow> ('r \<Rightarrow> ring_view) \<Rightarrow> ('r \<Rightarrow> nat) \<Rightarrow> bool" where
  "push_spec ur view depth \<longleftrightarrow>
    (\<forall>e r. case ur_push ur e r of
       None \<Rightarrow> depth r \<le> length (v_pending (view r))
     | Some r' \<Rightarrow> length (v_pending (view r)) < depth r \<and> depth r' = depth r \<and>
         view r' = (view r)\<lparr>v_pending := v_pending (view r) @ [e]\<rparr>)"

definition submit_spec ::
    "('r \<Rightarrow> u64 option \<times> 'r) \<Rightarrow> ('r \<Rightarrow> ring_view) \<Rightarrow> ('r \<Rightarrow> nat) \<Rightarrow> bool" where
  "submit_spec submit view depth \<longleftrightarrow>
    (\<forall>r res r'. submit r = (res, r') \<longrightarrow> depth r' = depth r \<and>
       (case res of None \<Rightarrow> advances (view r) 0 (view r') | Some n \<Rightarrow> advances (view r) (unat n) (view r')))"

definition completion_spec :: "('r, 'w) uring \<Rightarrow> ('r \<Rightarrow> ring_view) \<Rightarrow> ('r \<Rightarrow> nat) \<Rightarrow> bool" where
  "completion_spec ur view depth \<longleftrightarrow>
    (\<forall>r cs r'. ur_completion ur r = (cs, r') \<longrightarrow> depth r' = depth r \<and> cs = v_ready (view r) \<and>
       view r' = (view r)\<lparr>v_ready := [], v_reaped := v_reaped (view r) @ v_ready (view r)\<rparr>)"

text \<open>Every completion belongs to an entry of its own that the kernel has taken.\<close>

definition honest :: "('r \<Rightarrow> ring_view) \<Rightarrow> bool" where
  "honest view \<longleftrightarrow>
    (\<forall>r. mset (map fst (v_reaped (view r) @ v_ready (view r))) \<subseteq># mset (map sq_user_data (v_taken (view r))))"

definition uring_laws :: "('r, 'w) uring \<Rightarrow> ('r \<Rightarrow> ring_view) \<Rightarrow> ('r \<Rightarrow> nat) \<Rightarrow> bool" where
  "uring_laws ur view depth \<longleftrightarrow>
    push_spec ur view depth \<and> submit_spec (ur_submit ur) view depth \<and>
    submit_spec (ur_submit_and_wait ur 1) view depth \<and> completion_spec ur view depth \<and> honest view"

lemma push_law:
  assumes "uring_laws ur view depth"
  shows "ur_push ur e r = None \<Longrightarrow> depth r \<le> length (v_pending (view r))"
    and "ur_push ur e r = Some r' \<Longrightarrow> length (v_pending (view r)) < depth r \<and> depth r' = depth r \<and>
      view r' = (view r)\<lparr>v_pending := v_pending (view r) @ [e]\<rparr>"
proof -
  have "push_spec ur view depth" using assms by (simp add: uring_laws_def)
  then have "case ur_push ur e r of
       None \<Rightarrow> depth r \<le> length (v_pending (view r))
     | Some r' \<Rightarrow> length (v_pending (view r)) < depth r \<and> depth r' = depth r \<and>
         view r' = (view r)\<lparr>v_pending := v_pending (view r) @ [e]\<rparr>"
    unfolding push_spec_def by blast
  then show "ur_push ur e r = None \<Longrightarrow> depth r \<le> length (v_pending (view r))"
    and "ur_push ur e r = Some r' \<Longrightarrow> length (v_pending (view r)) < depth r \<and> depth r' = depth r \<and>
      view r' = (view r)\<lparr>v_pending := v_pending (view r) @ [e]\<rparr>"
    by simp_all
qed

lemma submit_law:
  assumes "uring_laws ur view depth"
    and "ur_submit ur r = (res, r') \<or> ur_submit_and_wait ur 1 r = (res, r')"
  shows "depth r' = depth r \<and> advances (view r) (case res of None \<Rightarrow> 0 | Some n \<Rightarrow> unat n) (view r')"
proof -
  have "submit_spec (ur_submit ur) view depth" "submit_spec (ur_submit_and_wait ur 1) view depth"
    using assms(1) by (simp_all add: uring_laws_def)
  then have "depth r' = depth r \<and>
       (case res of None \<Rightarrow> advances (view r) 0 (view r') | Some n \<Rightarrow> advances (view r) (unat n) (view r'))"
    using assms(2) unfolding submit_spec_def by blast
  then show ?thesis by (cases res) simp_all
qed

lemma completion_law:
  assumes "uring_laws ur view depth" and "ur_completion ur r = (cs, r')"
  shows "depth r' = depth r \<and> cs = v_ready (view r) \<and>
    view r' = (view r)\<lparr>v_ready := [], v_reaped := v_reaped (view r) @ v_ready (view r)\<rparr>"
  using assms by (simp add: uring_laws_def completion_spec_def)

section \<open>Runs of operations\<close>

datatype ur_op =
    SubmitRead raw_fd u64 u64 u64
  | SubmitWrite raw_fd u64 u64 u64
  | SubmitAccept raw_fd u64 u64
  | SubmitSendfile raw_fd raw_fd u64 u64
  | WaitForCompletion
  | BatchSubmit

text \<open>
  A run keeps the backend, the entries of the operations that did not report a full queue, and the
  completions given to the caller.
\<close>

type_synonym 'r ur_run = "'r uring_backend \<times> sqe list \<times> (u64 \<times> i32) list"

definition note_entry :: "sqe \<Rightarrow> sqe list \<Rightarrow> (u64 \<times> i32) list \<Rightarrow> unit res \<times> 'r uring_backend \<Rightarrow> 'r ur_run" where
  "note_entry e acc rep = (\<lambda>(r, b). (b, if r = Err PushFailed then acc else acc @ [e], rep))"

fun ur_exec :: "('r, 'w) uring \<Rightarrow> ur_op \<Rightarrow> 'r ur_run \<Rightarrow> 'r ur_run" where
  "ur_exec ur (SubmitRead fd buf len off) (b, acc, rep) =
    note_entry (read_entry fd buf len off) acc rep (submit_read ur fd buf len off b)"
| "ur_exec ur (SubmitWrite fd buf len off) (b, acc, rep) =
    note_entry (write_entry fd buf len off) acc rep (submit_write ur fd buf len off b)"
| "ur_exec ur (SubmitAccept fd addr len) (b, acc, rep) =
    note_entry (accept_entry fd addr len) acc rep (submit_accept ur fd addr len b)"
| "ur_exec ur (SubmitSendfile out_fd in_fd off len) (b, acc, rep) =
    note_entry (sendfile_entry out_fd in_fd off len) acc rep (submit_sendfile ur out_fd in_fd off len b)"
| "ur_exec ur WaitForCompletion (b, acc, rep) =
    (case wait_for_completion ur b of
       (Ok cs, b) \<Rightarrow> (b, acc, rep @ cs)
     | (_, b) \<Rightarrow> (b, acc, rep))"
| "ur_exec ur BatchSubmit (b, acc, rep) = (snd (batch_submit ur b), acc, rep)"

definition ur_inv :: "('r \<Rightarrow> ring_view) \<Rightarrow> ('r \<Rightarrow> nat) \<Rightarrow> nat \<Rightarrow> 'r ur_run \<Rightarrow> bool" where
  "ur_inv view depth d = (\<lambda>(b, acc, rep).
    let v = view (ub_ring b) in
    depth (ub_ring b) = d \<and> v_taken v @ v_pending v = acc \<and> length (v_pending v) \<le> d \<and> v_reaped v = rep)"

lemma advances_inv:
  "advances v n v' \<Longrightarrow> v_taken v' @ v_pending v' = v_taken v @ v_pending v \<and>
    length (v_pending v') \<le> length (v_pending v) \<and> v_reaped v' = v_reaped v"
  by (auto simp: advances_def)

lemma note_entry_inv:
  assumes "uring_laws ur view depth" and "ur_inv view depth d (b, acc, rep)"
  shows "ur_inv view depth d (note_entry e acc rep (push_and_submit ur e b))"
proof (cases "ur_push ur e (ub_ring b)")
  case None
  with assms(2) show ?thesis by (simp add: push_and_submit_def note_entry_def)
next
  case (Some r)
  obtain res r' where sub: "ur_submit ur r = (res, r')" by (rule prod.exhaust)
  from submit_law [OF assms(1) disjI1 [OF sub]] push_law(2) [OF assms(1) Some] assms(2)
    advances_inv [of "view r" _ "view r'"]
  have "ur_inv view depth d (b\<lparr>ub_ring := r'\<rparr>, acc @ [e], rep)"
    by (fastforce simp: ur_inv_def Let_def)
  with Some sub show ?thesis
    by (simp add: push_and_submit_def note_entry_def split: option.split)
qed

lemma ur_exec_inv:
  assumes "uring_laws ur view depth" and "ur_inv view depth d s"
  shows "ur_inv view depth d (ur_exec ur op s)"
proof -
  obtain b acc rep where s: "s = (b, acc, rep)" by (rule prod_cases3)
  note inv = assms(2) [unfolded s]
  show ?thesis
  proof (cases op)
    case WaitForCompletion
    obtain res r where sub: "ur_submit_and_wait ur 1 (ub_ring b) = (res, r)" by (rule prod.exhaust)
    obtain cs r' where comp: "ur_completion ur r = (cs, r')" by (rule prod.exhaust)
    note adv = submit_law [OF assms(1) disjI2 [OF sub]]
    from adv advances_inv [OF conjunct2 [OF adv]] completion_law [OF assms(1) comp] inv sub comp
    show ?thesis
      by (cases res) (auto simp: s WaitForCompletion wait_for_completion_def ur_inv_def Let_def)
  next
    case BatchSubmit
    obtain res r where sub: "ur_submit ur (ub_ring b) = (res, r)" by (rule prod.exhaust)
    note adv = submit_law [OF assms(1) disjI1 [OF sub]]
    from adv advances_inv [OF conjunct2 [OF adv]] inv sub show ?thesis
      by (cases res) (auto simp: s BatchSubmit batch_submit_def ur_inv_def Let_def)
  qed (simp_all add: s submit_read_def submit_write_def submit_accept_def submit_sendfile_def
      note_entry_inv [OF assms(1) inv])
qed

lemma ur_run_inv:
  "uring_laws ur view depth \<Longrightarrow> ur_inv view depth d s \<Longrightarrow> ur_inv view depth d (fold (ur_exec ur) ops s)"
  by (induction ops arbitrary: s) (simp_all add: ur_exec_inv)

text \<open>C10: no operation is lost, duplicated or reordered.  In any run of operations on a fresh ring, the
  entries the kernel has taken followed by those still queued are exactly the entries of the
  operations that did not report a full queue, in the order of the calls; at most the depth of the
  ring is queued; and the completions given out name the descriptors of such operations, each one at
  most as often as it was asked for.\<close>

theorem uring_fifo:
  assumes "uring_laws ur view depth"
    and "view (ub_ring b) = \<lparr>v_pending = [], v_taken = [], v_ready = [], v_reaped = []\<rparr>"
    and "fold (ur_exec ur) ops (b, [], []) = (b', acc, rep)"
  shows "v_taken (view (ub_ring b')) @ v_pending (view (ub_ring b')) = acc \<and>
    length (v_pending (view (ub_ring b'))) \<le> depth (ub_ring b) \<and>
    mset (map fst rep) \<subseteq># mset (map sq_user_data acc)"
proof -
  have "ur_inv view depth (depth (ub_ring b)) (b, [], [])"
    by (simp add: ur_inv_def assms(2))
  from ur_run_inv [OF assms(1) this, of ops] assms(3) have inv:
    "v_taken (view (ub_ring b')) @ v_pending (view (ub_ring b')) = acc"
    "length (v_pending (view (ub_ring b'))) \<le> depth (ub_ring b)"
    "v_reaped (view (ub_ring b')) = rep"
    by (simp_all add: ur_inv_def Let_def)
  have "honest view" using assms(1) by (simp add: uring_laws_def)
  then have "mset (map fst (rep @ v_ready (view (ub_ring b'))))
      \<subseteq># mset (map sq_user_data (v_taken (view (ub_ring b'))))"
    unfolding honest_def using inv(3) by metis
  moreover have "mset (map fst rep) \<subseteq># mset (map fst (rep @ v_ready (view (ub_ring b'))))"
    by simp
  moreover have "mset (map sq_user_data (v_taken (view (ub_ring b')))) \<subseteq># mset (map sq_user_data acc)"
    unfolding inv(1) [symmetric] by simp
  ultimately show ?thesis
    using inv(1,2) by (blast intro: subset_mset.order_trans)
qed

text \<open>An instance: the kernel takes everything at once and completes it with result 0.\<close>

type_synonym instant_ring = "nat \<times> sqe list \<times> sqe list \<times> nat"

definition done_with :: "sqe \<Rightarrow> u64 \<times> i32" where
  "done_with e = (sq_user_data e, 0)"

definition instant_view :: "instant_ring \<Rightarrow> ring_view" where
  "instant_view = (\<lambda>(d, pending, taken, k).
    \<lparr>v_pending = pending, v_taken = taken, v_ready = map done_with (drop k taken),
     v_reaped = map done_with (take k taken)\<rparr>)"

definition instant_submit :: "instant_ring \<Rightarrow> u64 option \<times> instant_ring" where
  "instant_submit = (\<lambda>(d, pending, taken, k).
    let n = unat (word_of_nat (length pending) :: u64) in
    (Some (word_of_nat n), (d, drop n pending, taken @ take n pending, min k (length taken))))"

definition instant_uring :: "(instant_ring, 'w) uring" where
  "instant_uring =
    \<lparr>ur_new = (\<lambda>d w. (Inr (unat d, [], [], 0), w)),
     ur_push = (\<lambda>e (d, pending, taken, k). if length pending < d then Some (d, pending @ [e], taken, k) else None),
     ur_submit = instant_submit, ur_submit_and_wait = (\<lambda>_. instant_submit),
     ur_completion = (\<lambda>(d, pending, taken, k). (map done_with (drop k taken), (d, pending, taken, length taken)))\<rparr>"

lemma min_length_take_drop:
  "take (min k (length xs)) xs = take k xs" "drop (min k (length xs)) xs = drop k xs"
  by (simp_all add: min_def)

lemma instant_submit_spec: "submit_spec instant_submit instant_view fst"
proof -
  have "unat (word_of_nat (length (xs :: sqe list)) :: u64) \<le> length xs" for xs
    by (simp add: unsigned_of_nat take_bit_eq_mod)
  then show ?thesis
    by (auto simp: submit_spec_def instant_submit_def instant_view_def advances_def min_length_take_drop
        Let_def)
qed

lemma done_user_data: "map (fst \<circ> done_with) xs = map sq_user_data xs"
  by (simp add: done_with_def comp_def)

lemma instant_honest: "honest instant_view"
  unfolding honest_def
proof
  fix r :: instant_ring
  obtain d pending taken k where r: "r = (d, pending, taken, k)" by (rule prod_cases4)
  have "map fst (v_reaped (instant_view r) @ v_ready (instant_view r)) =
      map sq_user_data (take k taken @ drop k taken)"
    by (simp add: r instant_view_def done_user_data flip: map_append)
  then show "mset (map fst (v_reaped (instant_view r) @ v_ready (instant_view r)))
      \<subseteq># mset (map sq_user_data (v_taken (instant_view r)))"
    by (simp only: append_take_drop_id) (simp add: r instant_view_def)
qed

lemma instant_completion_spec: "completion_spec instant_uring instant_view fst"
  by (auto simp: completion_spec_def instant_uring_def instant_view_def simp flip: map_append)

lemma instant_push_spec: "push_spec instant_uring instant_view fst"
  by (auto simp: push_spec_def instant_uring_def instant_view_def)

lemma instant_laws: "uring_laws instant_uring instant_view fst"
  using instant_submit_spec instant_honest instant_push_spec instant_completion_spec
  by (simp add: uring_laws_def instant_uring_def)

theorem uring_fifo_witness:
  "\<exists>b' acc rep. fold (ur_exec (instant_uring :: (instant_ring, unit) uring)) [SubmitRead 7 4096 100 0, SubmitAccept 4 0 0, WaitForCompletion]
      (\<lparr>ub_ring = (1, [], [], 0), ub_queue_depth = 1\<rparr>, [], []) = (b', acc, rep) \<and>
    acc = [read_entry 7 4096 100 0, accept_entry 4 0 0] \<and>
    mset (map fst rep) \<subseteq># mset (map sq_user_data acc)"
proof -
  let ?ops = "[SubmitRead 7 4096 100 0, SubmitAccept 4 0 0, WaitForCompletion]"
  let ?b = "\<lparr>ub_ring = (1, [], [], 0), ub_queue_depth = 1\<rparr> :: instant_ring uring_backend"
  obtain b' acc rep where run: "fold (ur_exec (instant_uring :: (instant_ring, unit) uring)) ?ops (?b, [], []) = (b', acc, rep)"
    by (rule prod_cases3)
  have fresh: "instant_view (ub_ring ?b) = \<lparr>v_pending = [], v_taken = [], v_ready = [], v_reaped = []\<rparr>"
    by (simp add: instant_view_def)
  have "acc = [read_entry 7 4096 100 0, accept_entry 4 0 0]"
    using run by (auto simp: submit_read_def submit_accept_def push_and_submit_def instant_uring_def
        instant_submit_def note_entry_def wait_for_completion_def Let_def)
  with uring_fifo [OF instant_laws fresh run] run show ?thesis by blast
qed

section \<open>Failed submissions\<close>

text \<open>C26: an error does not mean that nothing happens.  When the entry was queued and only the submission
  failed, the operation reports an error although the entry stays in the ring: the next submission
  the kernel takes in full carries it out, on the buffer of the call that had failed.\<close>

theorem failed_submit_keeps_entry:
  assumes "uring_laws ur view depth"
    and "submit_read ur fd buf len off b = (Err SubmitFailed, b1)"
    and "batch_submit ur b1 = (Ok n, b2)"
    and "unat n = length (v_pending (view (ub_ring b1)))"
  shows "v_pending (view (ub_ring b1)) = v_pending (view (ub_ring b)) @ [read_entry fd buf len off] \<and>
    v_taken (view (ub_ring b2)) =
      v_taken (view (ub_ring b)) @ v_pending (view (ub_ring b)) @ [read_entry fd buf len off]"
proof -
  from assms(2) obtain r r1 where r: "ur_push ur (read_entry fd buf len off) (ub_ring b) = Some r"
    "ur_submit ur r = (None, r1)" "ub_ring b1 = r1"
    by (auto simp: submit_read_def push_and_submit_def split: option.splits prod.splits)
  from assms(3) have r2: "ur_submit ur (ub_ring b1) = (Some n, ub_ring b2)"
    by (auto simp: batch_submit_def split: option.splits prod.splits)
  have "advances (view r) 0 (view r1)"
    using submit_law [OF assms(1) disjI1 [OF r(2)]] by simp
  then have 1: "v_pending (view r1) = v_pending (view r)" "v_taken (view r1) = v_taken (view r)"
    by (simp_all add: advances_def)
  have "advances (view r1) (unat n) (view (ub_ring b2))"
    using submit_law [OF assms(1) disjI1 [OF r2]] r(3) by simp
  then have 2: "v_taken (view (ub_ring b2)) = v_taken (view r1) @ v_pending (view r1)"
    using assms(4) r(3) by (simp add: advances_def)
  from push_law(2) [OF assms(1) r(1)] 1 2 r(3) show ?thesis by simp
qed

text \<open>An instance whose next submission can fail once: the flag says whether it does.\<close>

definition flaky_uring :: "(bool \<times> instant_ring, unit) uring" where
  "flaky_uring =
    \<lparr>ur_new = (\<lambda>d w. (Inr (True, unat d, [], [], 0), w)),
     ur_push = (\<lambda>e (f, r). map_option (Pair f) (ur_push (instant_uring :: (instant_ring, unit) uring) e r)),
     ur_submit = (\<lambda>(f, r). if f then (None, (False, r)) else map_prod id (Pair False) (instant_submit r)),
     ur_submit_and_wait = (\<lambda>_ (f, r). map_prod id (Pair f) (instant_submit r)),
     ur_completion = (\<lambda>(f, r). map_prod id (Pair f) (ur_completion (instant_uring :: (instant_ring, unit) uring) r))\<rparr>"

lemma advances_0: "advances v 0 v"
  by (simp add: advances_def)

lemma flaky_laws: "uring_laws flaky_uring (instant_view \<circ> snd) (fst \<circ> snd)"
proof -
  have push: "push_spec flaky_uring (instant_view \<circ> snd) (fst \<circ> snd)"
    by (auto simp: push_spec_def flaky_uring_def instant_uring_def instant_view_def)
  have base: "fst r' = fst r \<and> (case res of None \<Rightarrow> advances (instant_view r) 0 (instant_view r')
      | Some n \<Rightarrow> advances (instant_view r) (unat n) (instant_view r'))"
    if "instant_submit r = (res, r')" for r res r'
    using instant_submit_spec that unfolding submit_spec_def by blast
  have sub: "submit_spec (ur_submit flaky_uring) (instant_view \<circ> snd) (fst \<circ> snd)"
    unfolding submit_spec_def
  proof (intro allI impI)
    fix r res r'
    assume run: "ur_submit flaky_uring r = (res, r')"
    obtain f q where r: "r = (f, q)" by (rule prod.exhaust)
    obtain res1 q1 where q: "instant_submit q = (res1, q1)" by (rule prod.exhaust)
    from run q base [OF q] show "(fst \<circ> snd) r' = (fst \<circ> snd) r \<and>
        (case res of None \<Rightarrow> advances ((instant_view \<circ> snd) r) 0 ((instant_view \<circ> snd) r')
         | Some n \<Rightarrow> advances ((instant_view \<circ> snd) r) (unat n) ((instant_view \<circ> snd) r'))"
      by (auto simp: r flaky_uring_def advances_0 split: if_splits option.splits)
  qed
  have wait: "submit_spec (ur_submit_and_wait flaky_uring 1) (instant_view \<circ> snd) (fst \<circ> snd)"
    unfolding submit_spec_def
  proof (intro allI impI)
    fix r res r'
    assume run: "ur_submit_and_wait flaky_uring 1 r = (res, r')"
    obtain f q where r: "r = (f, q)" by (rule prod.exhaust)
    obtain res1 q1 where q: "instant_submit q = (res1, q1)" by (rule prod.exhaust)
    from run q base [OF q] show "(fst \<circ> snd) r' = (fst \<circ> snd) r \<and>
        (case res of None \<Rightarrow> advances ((instant_view \<circ> snd) r) 0 ((instant_view \<circ> snd) r')
         | Some n \<Rightarrow> advances ((instant_view \<circ> snd) r) (unat n) ((instant_view \<circ> snd) r'))"
      by (auto simp: r flaky_uring_def split: option.splits)
  qed
  have comp: "completion_spec flaky_uring (instant_view \<circ> snd) (fst \<circ> snd)"
    by (auto simp: completion_spec_def flaky_uring_def instant_uring_def instant_view_def
        simp flip: map_append)
  show ?thesis
    using push sub wait comp instant_honest by (simp add: uring_laws_def honest_def)
qed

theorem failed_submit_keeps_entry_witness:
  "\<exists>b1 b2 n. submit_read flaky_uring 7 4096 100 0 \<lparr>ub_ring = (True, 8, [], [], 0), ub_queue_depth = 8\<rparr> =
      (Err SubmitFailed, b1) \<and>
    batch_submit flaky_uring b1 = (Ok n, b2) \<and>
    v_taken (instant_view (snd (ub_ring b2))) = [read_entry 7 4096 100 0]"
proof -
  let ?b = "\<lparr>ub_ring = (True, 8, [], [], 0), ub_queue_depth = 8\<rparr> :: (bool \<times> instant_ring) uring_backend"
  obtain b1 where b1: "submit_read flaky_uring 7 4096 100 0 ?b = (Err SubmitFailed, b1)"
    "ub_ring b1 = (False, 8, [read_entry 7 4096 100 0], [], 0)"
    by (simp add: submit_read_def push_and_submit_def flaky_uring_def instant_uring_def)
  then obtain b2 where b2: "batch_submit flaky_uring b1 = (Ok 1, b2)"
    by (simp add: batch_submit_def flaky_uring_def instant_submit_def)
  have "unat (1 :: u64) = length (v_pending ((instant_view \<circ> snd) (ub_ring b1)))"
    by (simp add: b1(2) instant_view_def)
  from failed_submit_keeps_entry [OF flaky_laws b1(1) b2 this] b1(1) b2 show ?thesis
    by (auto simp: instant_view_def)
qed

section \<open>Encoding\<close>

text \<open>What of the arguments reaches the kernel.  The completion's user data gives back the
  descriptor, also a negative one; a length keeps its value only below 4 GiB and is otherwise
  cut to its low 32 bits; a splice offset from 2 to the 63 on becomes negative.\<close>

theorem entry_encoding:
  "u64_to_fd (sq_user_data (read_entry fd buf len off)) = fd \<and>
   u64_to_fd (sq_user_data (write_entry fd buf len off)) = fd \<and>
   u64_to_fd (sq_user_data (accept_entry fd addr addrlen)) = fd \<and>
   u64_to_fd (sq_user_data (sendfile_entry fd in_fd off len)) = fd \<and>
   (case sq_op (read_entry fd buf len off) of
      OpRead d a l p \<Rightarrow> d = fd \<and> a = buf \<and> unat l = unat len mod 2 ^ 32 \<and> p = off | _ \<Rightarrow> False) \<and>
   (case sq_op (write_entry fd buf len off) of
      OpWrite d a l p \<Rightarrow> d = fd \<and> a = buf \<and> unat l = unat len mod 2 ^ 32 \<and> p = off | _ \<Rightarrow> False) \<and>
   (case sq_op (sendfile_entry fd in_fd off len) of
      OpSplice i p d q l \<Rightarrow> i = in_fd \<and> d = fd \<and> unat l = unat len mod 2 ^ 32 \<and>
        sint p = (if uint off < 2 ^ 63 then uint off else uint off - 2 ^ 64) \<and> sint q = -1 | _ \<Rightarrow> False)"
proof -
  have fd: "u64_to_fd (fd_to_u64 fd) = fd"
    by (rule u64_to_fd_to_u64)
  have len: "unat (ucast len :: u32) = unat len mod 2 ^ 32"
    by (simp add: unsigned_ucast_eq take_bit_eq_mod)
  have "uint off div 2 ^ 63 = (if uint off < 2 ^ 63 then 0 else 1)"
    using uint_lt2p [of off] by (auto intro: int_div_pos_eq [of _ _ _ "uint off - 2 ^ 63"])
  then have "bit (uint off) 63 \<longleftrightarrow> \<not> uint off < 2 ^ 63"
    by (simp add: bit_iff_odd)
  then have off: "sint off = (if uint off < 2 ^ 63 then uint off else uint off - 2 ^ 64)"
    using uint_lt2p [of off]
    by (simp add: sint_uint signed_take_bit_eq_take_bit_minus take_bit_int_eq_self)
  show ?thesis
    using fd len off
    by (simp add: read_entry_def write_entry_def accept_entry_def sendfile_entry_def)
qed

end
