(* ===== verification/Server_Main.thy ===== *)
theory Server_Main
  imports Reactor Tuning Cpu_Affinity Io_Uring
begin

text \<open>
  \<open>main\<close> of \<open>src/main.rs\<close>: the composition of the command line, the report on system limits, the choice
  of a backend, the pinning of the main thread, the construction of the reactor and its start.
\<close>

section \<open>The environment\<close>

record ('r, 'w, 'c, 'p, 'q) main_env =
  me_avail :: "u64 option"
  me_feature :: bool
  me_host :: "'w host"
  me_uring :: "('r, 'w) uring"
  me_sched :: "('w, 'c) sched"
  me_platform :: "('w, 'p) platform"
  me_queue :: "('q, task) array_queue"
  me_registry :: 'p
  me_join :: "(nat \<times> work_stealing_queue) list \<Rightarrow> ('w, 'p) server \<Rightarrow> ('w, 'p) server option"

text \<open>The detection with its side effects: the probe for io_uring and the warning.\<close>

definition detect_backend_io ::
    "bool \<Rightarrow> ('r, 'w) uring \<Rightarrow> bool \<Rightarrow> 'w host_state \<Rightarrow> network_backend \<times> 'w host_state" where
  "detect_backend_io feature ur use_uring s =
    (if \<not> use_uring then (Epoll_Backend, s)
     else
       let (available, s) = (if feature then is_available feature ur s else (False, s)) in
       if available then (IoUring, s)
       else (Epoll_Backend, say (Warn (lit ''io_uring not available, falling back to epoll'')) s))"

fun backend_name :: "network_backend \<Rightarrow> rstr" where
  "backend_name IoUring = lit ''IoUring''"
| "backend_name Epoll_Backend = lit ''Epoll''"

text \<open>The message of the two errors pinning gives for core 0.\<close>

definition pin_error_text :: "err \<Rightarrow> rstr" where
  "pin_error_text e =
    (if e = NoCores then lit ''No cores specified'' else lit ''Failed to set CPU affinity to core 0'')"

definition pin_main_thread :: "('w, 'c) sched \<Rightarrow> 'w host_state \<Rightarrow> 'w host_state" where
  "pin_main_thread sc s =
    (case pin_to_cores sc [0] s of
       (Err e, s) \<Rightarrow>
         say (Warn (lit ''Failed to pin main thread to CPU 0: '' @ pin_error_text e)) s
     | (_, s) \<Rightarrow> s)"

text \<open>The lines of the help text.\<close>

definition server_help :: "rstr list" where
  "server_help = map lit
    ['''', ''Rust Kernel Engine - High-Performance Network Server'', '''', ''USAGE:'',
     ''    server [OPTIONS]'', '''', ''OPTIONS:'',
     ''    --host <HOST>           Bind host address (default: 0.0.0.0)'',
     ''    --port <PORT>           Bind port (default: 8080)'',
     ''    --workers <NUM>         Number of worker threads (default: num CPUs)'',
     ''    --mode <MODE>           Server mode: fast-path or dynamic-path (default: fast-path)'',
     ''    --static-dir <DIR>      Static files directory (default: ./static)'',
     ''    --no-io-uring           Disable io_uring and use epoll fallback'',
     ''    --help, -h              Print this help message'', '''',
     ''FEATURES:'',
     ''    io_uring                Enable io_uring support (default)'',
     ''    dpdk                    Enable DPDK kernel-bypass networking'',
     ''    ebpf                    Enable eBPF metrics collection'', '''',
     ''EXAMPLES:'',
     ''    sudo ./target/release/server --port 8080 --workers 8'',
     ''    sudo ./target/release/server --mode dynamic-path --no-io-uring'', '''']"

text \<open>
  How \<open>main\<close> ends: \<open>process::exit(0)\<close> after the help text, or its result.  The state is the reports'
  log and world, and the server once it was made.
\<close>

datatype main_outcome = ExitZero "rstr list" | Returned "unit res"

definition announce_and_pin :: "('r, 'w, 'c, 'p, 'q) main_env \<Rightarrow> bool \<Rightarrow> 'w host_state \<Rightarrow> 'w host_state" where
  "announce_and_pin env use_uring s =
    (let (backend, s) = detect_backend_io (me_feature env) (me_uring env) use_uring s;
         s = say (Info (lit ''Using network backend: '' @ backend_name backend)) s in
     pin_main_thread (me_sched env) s)"

definition run_reactor ::
    "('r, 'w, 'c, 'p, 'q) main_env \<Rightarrow> server_config \<Rightarrow> 'w host_state \<Rightarrow>
     (main_outcome \<times> 'w host_state \<times> ('w, 'p) server option) option" where
  "run_reactor env config s =
    (case Reactor_new (pf_prom (me_platform env)) (me_registry env) \<lparr>world = hs_world s, trace = []\<rparr> of
       Ok reactor \<Rightarrow>
         map_option (\<lambda>(r, sv, handles, heap). (Returned r, s, Some sv))
           (start (me_platform env) (me_queue env) config (me_join env) reactor [])
     | Err e \<Rightarrow> Some (Returned (Err e), s, None)
     | Panic \<Rightarrow> Some (Returned Panic, s, None))"

definition server_main ::
    "('r, 'w, 'c, 'p, 'q) main_env \<Rightarrow> rstr list \<Rightarrow> 'w host_state \<Rightarrow>
     (main_outcome \<times> 'w host_state \<times> ('w, 'p) server option) option" where
  "server_main env args s =
    (let s = say (Info (128640 # lit '' Starting Rust Kernel Engine - High-Performance Network Server'')) s in
     case parse_args (me_avail env) (me_feature env) args of
       ExitHelp \<Rightarrow> Some (ExitZero server_help, s, None)
     | Run config \<Rightarrow>
         (case check_system_limits (me_host env) s of
            (Ok _, s) \<Rightarrow> run_reactor env config (announce_and_pin env (use_io_uring config) s)
          | (Err e, s) \<Rightarrow> Some (Returned (Err e), s, None)
          | (Panic, s) \<Rightarrow> Some (Returned Panic, s, None)))"

section \<open>The choice of a backend changes nothing\<close>

fun force_epoll :: "args_result \<Rightarrow> args_result" where
  "force_epoll ExitHelp = ExitHelp"
| "force_epoll (Run c) = Run (c\<lparr>use_io_uring := False\<rparr>)"

lemma use_io_uring_last:
  "c\<lparr>use_io_uring := b, host := h\<rparr> = c\<lparr>host := h, use_io_uring := b\<rparr>"
  "c\<lparr>use_io_uring := b, port := p\<rparr> = c\<lparr>port := p, use_io_uring := b\<rparr>"
  "c\<lparr>use_io_uring := b, num_workers := n\<rparr> = c\<lparr>num_workers := n, use_io_uring := b\<rparr>"
  "c\<lparr>use_io_uring := b, mode := m\<rparr> = c\<lparr>mode := m, use_io_uring := b\<rparr>"
  "c\<lparr>use_io_uring := b, static_dir := d\<rparr> = c\<lparr>static_dir := d, use_io_uring := b\<rparr>"
  by simp_all

lemma parse_loop_use_io_uring:
  "parse_loop avail (config\<lparr>use_io_uring := False\<rparr>) as = force_epoll (parse_loop avail config as)"
proof (induction avail config "as" rule: parse_loop.induct)
  case (2 avail config a rest)
  consider (host) "a = lit ''--host''" | (port) "a = lit ''--port''" | (workers) "a = lit ''--workers''"
    | (mode) "a = lit ''--mode''" | (dir) "a = lit ''--static-dir''" | (no) "a = lit ''--no-io-uring''"
    | (asks) "a = lit ''--help'' \<or> a = lit ''-h''"
    | (other) "a \<notin> {lit ''--host'', lit ''--port'', lit ''--workers'', lit ''--mode'', lit ''--static-dir'',
        lit ''--no-io-uring'', lit ''--help'', lit ''-h''}"
    by blast
  then show ?case
  proof cases
    case host
    then show ?thesis using "2.IH"(1) by (cases rest) (simp_all add: use_io_uring_last)
  next
    case port
    then show ?thesis using "2.IH"(2) by (cases rest) (simp_all add: use_io_uring_last)
  next
    case workers
    then show ?thesis using "2.IH"(3) by (cases rest) (simp_all add: use_io_uring_last)
  next
    case mode
    then show ?thesis using "2.IH"(4) by (cases rest) (simp_all add: use_io_uring_last)
  next
    case dir
    then show ?thesis using "2.IH"(5) by (cases rest) (simp_all add: use_io_uring_last)
  next
    case no
    then show ?thesis using "2.IH"(6) by simp
  next
    case asks
    then show ?thesis by auto
  next
    case other
    then show ?thesis using "2.IH"(7) by simp
  qed
qed simp

lemma handle_static_file_use_io_uring:
  "handle_static_file k (config\<lparr>use_io_uring := b\<rparr>) = handle_static_file k config"
  by (intro ext) (simp add: handle_static_file_def)

lemma handle_request_use_io_uring:
  "handle_request pf (config\<lparr>use_io_uring := b\<rparr>) = handle_request pf config"
proof -
  have "make_response pf (config\<lparr>use_io_uring := b\<rparr>) = make_response pf config"
    by (intro ext)
       (simp add: make_response_def handle_static_file_use_io_uring split: res.split server_mode.split)
  then show ?thesis
    by (intro ext) (simp add: handle_request_def)
qed

lemma handle_events_use_io_uring:
  "handle_events pf (config\<lparr>use_io_uring := b\<rparr>) l evs s = handle_events pf config l evs s"
proof -
  have "handle_event pf (config\<lparr>use_io_uring := b\<rparr>) l = handle_event pf config l"
    by (intro ext) (simp add: handle_event_def handle_request_use_io_uring split: prod.split res.split)
  then show ?thesis
    by (induction evs arbitrary: s) (simp_all split: option.split res.split)
qed

lemma event_while_use_io_uring_le:
  assumes "event_while pf config l s = Some y"
  shows "event_while pf (config\<lparr>use_io_uring := b\<rparr>) l s = Some y"
proof (rule event_while.raw_induct [of "\<lambda>pf config l s y. event_while pf (config\<lparr>use_io_uring := b\<rparr>) l s = Some y",
      OF _ assms])
  fix loop pf config l and s :: "('a, 'b) rstate" and y
  assume IH: "\<And>pf config l s y. loop pf config l s = Some y \<Longrightarrow>
      event_while pf (config\<lparr>use_io_uring := b\<rparr>) l s = Some y"
    and body: "(if \<not> sv_running (snd s) then Some (Ok (), s)
       else
         case on_ep (process_events (pf_kernel pf) 100) s of
           (Ok events, s) \<Rightarrow>
             (case handle_events pf config l events s of
                None \<Rightarrow> None
              | Some (Ok _, s) \<Rightarrow> loop pf config l s
              | Some (Err e, s) \<Rightarrow> Some (Err e, s)
              | Some (Panic, s) \<Rightarrow> Some (Panic, s))
         | (Err e, s) \<Rightarrow> Some (Err e, s)
         | (Panic, s) \<Rightarrow> Some (Panic, s)) = Some y"
  have again: "event_while pf (config\<lparr>use_io_uring := b\<rparr>) l u = Some y" if "loop pf config l u = Some y" for u
    using that by (rule IH)
  show "event_while pf (config\<lparr>use_io_uring := b\<rparr>) l s = Some y"
    using body again
    by (subst event_while.simps)
       (auto simp: handle_events_use_io_uring split: if_splits prod.splits res.splits option.splits)
qed

lemma event_while_use_io_uring:
  "event_while pf (config\<lparr>use_io_uring := b\<rparr>) l s = event_while pf config l s"
proof (cases "event_while pf config l s")
  case (Some y)
  then show ?thesis by (simp add: event_while_use_io_uring_le)
next
  case None
  show ?thesis
  proof (cases "event_while pf (config\<lparr>use_io_uring := b\<rparr>) l s")
    case (Some y)
    from event_while_use_io_uring_le [OF this, of "use_io_uring config"] None show ?thesis by simp
  qed (simp add: None)
qed

lemma start_use_io_uring:
  "start pf aq (config\<lparr>use_io_uring := b\<rparr>) join sv heap = start pf aq config join sv heap"
proof -
  have "create_listen_socket (pf_kernel pf) (config\<lparr>use_io_uring := b\<rparr>) m =
      create_listen_socket (pf_kernel pf) config m" for m
    unfolding create_listen_socket_def Let_def
    by (simp cong: prod.case_cong option.case_cong if_cong)
  moreover have "event_loop pf (config\<lparr>use_io_uring := b\<rparr>) fd sv = event_loop pf config fd sv" for fd sv
    by (simp add: event_loop_def event_while_use_io_uring split: res.split prod.split)
  ultimately show ?thesis by (simp add: start_def Let_def split: res.split prod.split)
qed

text \<open>What a run of \<open>main\<close> does apart from its log.\<close>

definition without_log ::
    "(main_outcome \<times> 'w host_state \<times> ('w, 'p) server option) option \<Rightarrow>
     (main_outcome \<times> 'w \<times> ('w, 'p) server option) option" where
  "without_log = map_option (\<lambda>(r, s, sv). (r, hs_world s, sv))"

lemma detect_backend_world:
  assumes "\<And>d w. snd (ur_new ur d w) = w"
  shows "hs_world (snd (detect_backend_io feature ur use_uring s)) = hs_world s"
  using assms [of 8 "hs_world s"]
  by (auto simp: detect_backend_io_def is_available_def split: prod.splits sum.splits)

lemma detect_backend_announced:
  "fst (detect_backend_io feature ur use_uring s) =
    detect_backend feature (fst (is_available feature ur s)) use_uring"
  by (auto simp: detect_backend_io_def detect_backend_def is_available_def split: prod.splits sum.splits)

lemma pin_main_thread_world:
  assumes "hs_world s = hs_world s'"
  shows "hs_world (pin_main_thread sc s) = hs_world (pin_main_thread sc s')"
  using assms by (auto simp: pin_main_thread_def pin_to_cores_def split: prod.splits bool.splits)

lemma announce_and_pin_world:
  assumes "\<And>d w. snd (ur_new (me_uring env) d w) = w"
  shows "hs_world (announce_and_pin env use s) = hs_world (announce_and_pin env use' s)"
  using detect_backend_world [OF assms, of "me_feature env" use s]
    detect_backend_world [OF assms, of "me_feature env" use' s]
  by (auto simp: announce_and_pin_def intro!: pin_main_thread_world split: prod.splits)

lemma run_reactor_use_io_uring:
  "run_reactor env (config\<lparr>use_io_uring := b\<rparr>) s = run_reactor env config s"
  by (simp add: run_reactor_def start_use_io_uring split: res.split)

lemma run_reactor_world:
  assumes "hs_world s = hs_world s'"
  shows "without_log (run_reactor env config s) = without_log (run_reactor env config s')"
  using assms
  by (auto simp: run_reactor_def without_log_def option.map_comp comp_def case_prod_unfold split: res.split)

text \<open>C11: the choice of the backend only changes the log.  Started with \<open>--no-io-uring\<close> in front of any other
  arguments the server ends in the same way, with the same calls to the kernel and the same state, as
  without it, whether io_uring is available or not (given that probing for it leaves the machine as
  it was): the announced backend is never used.\<close>

theorem backend_only_announced:
  assumes "\<And>d w. snd (ur_new (me_uring env) d w) = w"
  shows "without_log (server_main env (prog # lit ''--no-io-uring'' # args) s) =
    without_log (server_main env (prog # args) s)"
proof -
  note same = parse_loop_use_io_uring [of "me_avail env" "default_config (me_avail env) (me_feature env)" args]
  let ?s0 = "say (Info (128640 # lit '' Starting Rust Kernel Engine - High-Performance Network Server'')) s"
  obtain r s1 where lim: "check_system_limits (me_host env) ?s0 = (r, s1)" by (rule prod.exhaust)
  show ?thesis
  proof (cases "parse_args (me_avail env) (me_feature env) (prog # args)")
    case ExitHelp
    with same have "parse_args (me_avail env) (me_feature env) (prog # lit ''--no-io-uring'' # args) = ExitHelp"
      by (simp add: parse_args_def)
    with ExitHelp show ?thesis by (simp add: server_main_def)
  next
    case (Run c)
    with same have off: "parse_args (me_avail env) (me_feature env) (prog # lit ''--no-io-uring'' # args) =
        Run (c\<lparr>use_io_uring := False\<rparr>)"
      by (simp add: parse_args_def)
    from run_reactor_world [OF announce_and_pin_world [OF assms]] show ?thesis
      by (cases r) (simp_all add: server_main_def Run off lim run_reactor_use_io_uring)
  qed
qed

text \<open>An environment in which every check passes; the kernel answers as scripted.\<close>

definition demo_env :: "(instant_ring, sysret list, nat \<Rightarrow> u64, u64 \<times> u64 \<times> nat, nat \<times> task list) main_env" where
  "demo_env =
    \<lparr>me_avail = Some 2, me_feature = True,
     me_host = \<lparr>read_to_string = (\<lambda>_ _. None), fs_write = (\<lambda>_ _ w. (Some [], w)),
       read_dir = (\<lambda>_ _. None), getrlimit_nofile = (\<lambda>_. Some (65536, 65536))\<rparr>,
     me_uring = instant_uring,
     me_sched = \<lparr>set_for_current = (\<lambda>_ w. (True, w)), get_core_ids = (\<lambda>_. None), cpus = (\<lambda>_. 2),
       sched_setaffinity = (\<lambda>_ w. (0, w)), sched_getaffinity = (\<lambda>c w. (0, c))\<rparr>,
     me_platform = demo_platform get_root, me_queue = list_queue, me_registry = (0, 0, 0),
     me_join = (\<lambda>_ sv. Some sv)\<rparr>"

theorem backend_only_announced_witness:
  "without_log (server_main demo_env [lit ''server'', lit ''--no-io-uring'', lit ''--port'', lit ''80'']
      \<lparr>hs_world = [ret_int 3], hs_log = []\<rparr>) =
   without_log (server_main demo_env [lit ''server'', lit ''--port'', lit ''80'']
      \<lparr>hs_world = [ret_int 3], hs_log = []\<rparr>)"
  by (rule backend_only_announced) (simp add: demo_env_def instant_uring_def)

section \<open>How the program ends\<close>

lemma start_fails:
  assumes "start pf aq config join sv heap = Some (res, sv', handles, heap')"
  shows "res \<noteq> Ok () \<and> sv_running sv'"
proof -
  obtain qs h where q: "WorkStealingQueue_new aq (unat (num_workers config)) 1024 heap = (qs, h)"
    by (rule prod.exhaust)
  obtain r m where sock: "create_listen_socket (pf_kernel pf) config (sv_os sv) = (r, m)"
    by (rule prod.exhaust)
  have loop: "r2 \<noteq> Ok () \<and> sv_running sv2"
    if "event_loop pf config fd (sv\<lparr>sv_running := True, sv_os := m\<rparr>) = Some (r2, sv2)" for fd r2 sv2
    using event_loop_running [OF that] by simp
  show ?thesis
    using assms q sock
    by (auto simp: start_def Let_def dest: loop split: res.splits option.splits)
qed

text \<open>C27: the program cannot end well.  Apart from the help text, which exits with status 0 before anything
  of the machine is touched, whenever \<open>main\<close> returns it returns an error (or has panicked); when a
  server had been made, its running flag is still set.\<close>

theorem main_ends_with_error:
  "case server_main env args s of
     None \<Rightarrow> True
   | Some (ExitZero out, s', sv) \<Rightarrow> hs_world s' = hs_world s \<and> sv = None \<and> out = server_help \<and>
       parse_args (me_avail env) (me_feature env) args = ExitHelp
   | Some (Returned r, s', sv) \<Rightarrow> r \<noteq> Ok () \<and> (case sv of None \<Rightarrow> True | Some v \<Rightarrow> sv_running v)"
proof (cases "parse_args (me_avail env) (me_feature env) args")
  case ExitHelp
  then show ?thesis by (simp add: server_main_def)
next
  case (Run config)
  have reactor: "case run_reactor env config t of
      None \<Rightarrow> True
    | Some (ExitZero out, s', sv) \<Rightarrow> False
    | Some (Returned r, s', sv) \<Rightarrow> r \<noteq> Ok () \<and> (case sv of None \<Rightarrow> True | Some v \<Rightarrow> sv_running v)" for t
    using start_fails
    by (fastforce simp: run_reactor_def split: res.split option.split prod.split)
  obtain r t where lim: "check_system_limits (me_host env)
      (say (Info (128640 # lit '' Starting Rust Kernel Engine - High-Performance Network Server'')) s) = (r, t)"
    by (rule prod.exhaust)
  show ?thesis
    using reactor [of "announce_and_pin env (use_io_uring config) t"]
    by (cases r) (auto simp: server_main_def Run lim split: option.splits main_outcome.splits)
qed

end
