(* ===== verification/Bench.thy ===== *)
theory Bench
  imports Rust_Fmt Config Request_Wire
begin

text \<open>
  \<open>bench/run_bench.rs\<close>, first part: the load generator's configuration and command line, the request
  it sends, and its statistics with the report and the CSV file made from them.  Numbers that are
  printed through floating point are rendered by parameters (\<open>float_fmt\<close>).
\<close>

section \<open>Durations\<close>

text \<open>\<open>std::time::Duration\<close>: whole seconds and nanoseconds below a second, ordered by length.\<close>

datatype duration = Duration (d_secs: u64) (d_nanos: u32)

instantiation duration :: linorder
begin

definition less_eq_duration :: "duration \<Rightarrow> duration \<Rightarrow> bool" where
  "a \<le> b \<longleftrightarrow> d_secs a < d_secs b \<or> (d_secs a = d_secs b \<and> d_nanos a \<le> d_nanos b)"

definition less_duration :: "duration \<Rightarrow> duration \<Rightarrow> bool" where
  "a < b \<longleftrightarrow> d_secs a < d_secs b \<or> (d_secs a = d_secs b \<and> d_nanos a < d_nanos b)"

instance
  by standard (auto simp: less_eq_duration_def less_duration_def intro: duration.expand)

end

section \<open>Configuration\<close>

record bench_config =
  target_host :: rstr
  target_port :: u16
  num_connections :: u64
  requests_per_connection :: u64
  payload_size :: u64
  duration_secs :: u64

datatype bench_args = BenchRun bench_config | BenchHelp

text \<open>The loop over the arguments after the program name, with the values so far.\<close>

fun bench_args_loop :: "bench_config \<Rightarrow> rstr list \<Rightarrow> bench_args" where
  "bench_args_loop c [] = BenchRun c"
| "bench_args_loop c (a # rest) =
    (if a = lit ''--host'' then
       (case rest of v # rest' \<Rightarrow> bench_args_loop (c\<lparr>target_host := v\<rparr>) rest'
        | [] \<Rightarrow> BenchRun c)
     else if a = lit ''--port'' then
       (case rest of v # rest' \<Rightarrow>
          bench_args_loop (c\<lparr>target_port := unwrap_or 8080 (parse_u16 v)\<rparr>) rest'
        | [] \<Rightarrow> BenchRun c)
     else if a = lit ''--connections'' \<or> a = lit ''-c'' then
       (case rest of v # rest' \<Rightarrow>
          bench_args_loop (c\<lparr>num_connections := unwrap_or 10 (parse_usize v)\<rparr>) rest'
        | [] \<Rightarrow> BenchRun c)
     else if a = lit ''--requests'' \<or> a = lit ''-n'' then
       (case rest of v # rest' \<Rightarrow>
          bench_args_loop (c\<lparr>requests_per_connection := unwrap_or 1000 (parse_usize v)\<rparr>) rest'
        | [] \<Rightarrow> BenchRun c)
     else if a = lit ''--payload'' \<or> a = lit ''-p'' then
       (case rest of v # rest' \<Rightarrow>
          bench_args_loop (c\<lparr>payload_size := unwrap_or 128 (parse_usize v)\<rparr>) rest'
        | [] \<Rightarrow> BenchRun c)
     else if a = lit ''--help'' \<or> a = lit ''-h'' then BenchHelp
     else bench_args_loop c rest)"

definition bench_parse_args :: "rstr list \<Rightarrow> bench_args" where
  "bench_parse_args args = bench_args_loop
    \<lparr>target_host = lit ''127.0.0.1'', target_port = 8080, num_connections = 10,
     requests_per_connection = 1000, payload_size = 128, duration_secs = 60\<rparr> (drop 1 args)"

section \<open>The request\<close>

definition create_http_request :: "u64 \<Rightarrow> rstr res" where
  "create_http_request payload =
    (if payload = 0 then
       format_string
        (lit ''GET /api/health HTTP/1.1'' @ crlf @ lit ''Host: localhost'' @ crlf @
         lit ''Connection: keep-alive'' @ crlf @ crlf)
     else
       res_bind (str_repeat (lit ''x'') payload) (\<lambda>body.
         format_string
          (lit ''POST /api/data HTTP/1.1'' @ crlf @ lit ''Host: localhost'' @ crlf @
           lit ''Content-Length: '' @ show_nat (unat payload) @ crlf @
           lit ''Connection: keep-alive'' @ crlf @ crlf @ body)))"

section \<open>Statistics\<close>

record bench_stats =
  total_requests :: u64
  total_bytes :: u64
  latencies :: "duration list"

definition BenchmarkStats_new :: bench_stats where
  "BenchmarkStats_new = \<lparr>total_requests = 0, total_bytes = 0, latencies = []\<rparr>"

text \<open>The three steps of \<open>record_request\<close>, each atomic: other threads can run between them.\<close>

definition count_request :: "bench_stats \<Rightarrow> bench_stats" where
  "count_request st = st\<lparr>total_requests := total_requests st + 1\<rparr>"

definition count_bytes :: "u64 \<Rightarrow> bench_stats \<Rightarrow> bench_stats" where
  "count_bytes bytes st = st\<lparr>total_bytes := total_bytes st + bytes\<rparr>"

definition push_latency :: "duration \<Rightarrow> bench_stats \<Rightarrow> bench_stats" where
  "push_latency latency st = st\<lparr>latencies := latencies st @ [latency]\<rparr>"

definition record_request :: "u64 \<Rightarrow> duration \<Rightarrow> bench_stats \<Rightarrow> bench_stats" where
  "record_request bytes latency st = push_latency latency (count_bytes bytes (count_request st))"

text \<open>The renderings that go through \<open>f64\<close>: seconds and milliseconds of a duration, rates.\<close>

record float_fmt =
  f_secs2 :: "duration \<Rightarrow> rstr"
  f_rps2 :: "u64 \<Rightarrow> duration \<Rightarrow> rstr"
  f_mbps2 :: "u64 \<Rightarrow> duration \<Rightarrow> rstr"
  f_ms2 :: "duration \<Rightarrow> rstr"
  f_ms3 :: "duration \<Rightarrow> rstr"

text \<open>\<open>latencies[latencies.len() * p / 100]\<close> on \<open>usize\<close>: the product wraps, the index is checked.\<close>

definition percentile :: "u64 \<Rightarrow> duration list \<Rightarrow> duration res" where
  "percentile p xs =
    (let i = unat (word_of_nat (length xs) * p div 100) in
     if i < length xs then Ok (xs ! i) else Panic)"

definition percentile_lines :: "float_fmt \<Rightarrow> duration list \<Rightarrow> rstr list res" where
  "percentile_lines fl xs =
    res_bind (percentile 50 xs) (\<lambda>p50. res_bind (percentile 95 xs) (\<lambda>p95.
    res_bind (percentile 99 xs) (\<lambda>p99.
      Ok [lit ''Latency percentiles:'', lit ''  p50: '' @ f_ms2 fl p50 @ lit ''ms'',
          lit ''  p95: '' @ f_ms2 fl p95 @ lit ''ms'', lit ''  p99: '' @ f_ms2 fl p99 @ lit ''ms''])))"

text \<open>The list in the statistics itself is sorted, under its lock.\<close>

definition print_results :: "float_fmt \<Rightarrow> duration \<Rightarrow> bench_stats \<Rightarrow> rstr list res \<times> bench_stats" where
  "print_results fl elapsed st =
    (let total_reqs = total_requests st; bytes = total_bytes st;
         st = st\<lparr>latencies := sort (latencies st)\<rparr>;
         lines = [[], lit ''=== Benchmark Results ==='',
           lit ''Duration: '' @ f_secs2 fl elapsed @ lit ''s'',
           lit ''Total requests: '' @ show_nat (unat total_reqs),
           lit ''Requests/sec: '' @ f_rps2 fl total_reqs elapsed,
           lit ''Throughput: '' @ f_mbps2 fl bytes elapsed @ lit '' MB/s'', []] in
     (if latencies st = [] then Ok lines
      else res_bind (percentile_lines fl (latencies st)) (\<lambda>ls. Ok (lines @ ls)), st))"

text \<open>The rows of the CSV file: the position in the list and the latency there.\<close>

definition csv_lines :: "float_fmt \<Rightarrow> bench_stats \<Rightarrow> rstr list" where
  "csv_lines fl st = lit ''request_num,latency_ms'' #
    map (\<lambda>(i, latency). show_nat i @ lit '','' @ f_ms3 fl latency) (enumerate 0 (latencies st))"

section \<open>The request on the wire\<close>

definition bench_headers :: "u64 \<Rightarrow> (rstr \<times> rstr) list" where
  "bench_headers n =
    (lit ''Host'', lit ''localhost'') #
    (if n = 0 then [] else [(lit ''Content-Length'', show_nat (unat n))]) @
    [(lit ''Connection'', lit ''keep-alive'')]"

text \<open>The request as a rendered head and a body.\<close>

definition bench_head :: "u64 \<Rightarrow> rstr" where
  "bench_head n =
    render_request (if n = 0 then lit ''GET'' else lit ''POST'')
      (if n = 0 then lit ''/api/health'' else lit ''/api/data'') 1 (bench_headers n)"

lemma bench_request_text:
  "bench_head 0 = lit ''GET /api/health HTTP/1.1'' @ crlf @ lit ''Host: localhost'' @ crlf @
     lit ''Connection: keep-alive'' @ crlf @ crlf"
  "n \<noteq> 0 \<Longrightarrow> bench_head n @ body = lit ''POST /api/data HTTP/1.1'' @ crlf @ lit ''Host: localhost'' @ crlf @
     lit ''Content-Length: '' @ show_nat (unat n) @ crlf @ lit ''Connection: keep-alive'' @ crlf @ crlf @ body"
  by (simp_all add: bench_head_def bench_headers_def render_request_def header_line_def lit_def)

lemma as_bytes_replicate: "c < 128 \<Longrightarrow> as_bytes (replicate n c) = replicate n (u8_of c)"
  by (induction n) simp_all

lemma str_len_ascii: "list_all (\<lambda>c. c < 128) s \<Longrightarrow> str_len s = length s"
  by (induction s) (simp_all add: len_utf8_def)

lemma show_nat_ascii: "list_all (\<lambda>c. c < 128) (show_nat n)"
  using show_nat_digits [of _ n] by (fastforce simp: list_all_iff)

lemma repeat_x:
  "str_repeat (lit ''x'') n = (if unat n < 2 ^ 63 then Ok (replicate (unat n) 120) else Panic)"
  by (simp add: str_repeat_def fits_string_def lit_def len_utf8_def concat_replicate_single)

lemma bench_head_length: "str_len (bench_head n) \<le> 128"
proof -
  have "unat n < 10 ^ 20" using unsigned_less [of n] by (rule less_trans) simp
  then have "length (show_nat (unat n)) \<le> 20" by (rule length_show_nat_bound) simp
  then have "str_len (show_nat (unat n)) \<le> 20"
    by (simp only: str_len_ascii [OF show_nat_ascii])
  then show ?thesis
    by (simp add: bench_head_def bench_headers_def render_request_def header_line_def lit_def crlf_def len_utf8_def)
qed

text \<open>The request is its head and body, unless the string would be too long.\<close>

lemma create_http_request_cases:
  obtains
    (made) "create_http_request n = Ok (bench_head n @ replicate (unat n) 120)" "unat n < 2 ^ 63"
  | (too_long) "create_http_request n = Panic" "2 ^ 63 \<le> unat n + 128"
proof (cases "n = 0")
  case True
  have "create_http_request n = Ok (bench_head 0)"
    using bench_head_length [of 0] True
    by (simp add: create_http_request_def format_string_def fits_string_def flip: bench_request_text(1))
  with True show ?thesis by (intro made) simp_all
next
  case False
  let ?text = "bench_head n @ replicate (unat n) 120"
  have run: "create_http_request n = (if unat n < 2 ^ 63 then format_string ?text else Panic)"
    using False by (simp add: create_http_request_def repeat_x bench_request_text(2))
  have len: "str_len ?text = str_len (bench_head n) + unat n"
    by (simp add: str_len_ascii list_all_iff)
  show ?thesis
  proof (cases "unat n < 2 ^ 63 \<and> str_len ?text < 2 ^ 63")
    case True
    then show ?thesis
      by (intro made) (simp_all add: run format_string_def fits_string_def del: str_len_simps)
  next
    case False
    then have "create_http_request n = Panic"
      by (simp add: run format_string_def fits_string_def del: str_len_simps)
    moreover have "2 ^ 63 \<le> unat n + 128"
      using False bench_head_length [of n] unfolding len by linarith
    ultimately show ?thesis by (rule too_long)
  qed
qed

lemma bench_request_ok:
  "request_ok (if n = 0 then lit ''GET'' else lit ''POST'')
    (if n = 0 then lit ''/api/health'' else lit ''/api/data'') 1 (bench_headers n)"
proof -
  have "is_value (show_nat k)" for k
  proof -
    have d: "48 \<le> c \<and> c \<le> 57" if "c \<in> set (show_nat k)" for c
      using show_nat_digits [OF that] by simp
    moreover have ne: "show_nat k \<noteq> []" by (simp add: show_nat.simps [of k])
    ultimately have "\<forall>c \<in> set (show_nat k). 32 \<le> c \<and> c \<le> 126 \<and> c \<noteq> 32" by fastforce
    then show ?thesis using ne by (auto simp: is_value_def list_all_iff)
  qed
  moreover have "is_token (lit ''GET'')" "is_token (lit ''POST'')" "is_token (lit ''Host'')"
    "is_token (lit ''Content-Length'')" "is_token (lit ''Connection'')"
    by (simp_all add: is_token_def tchar_def alnum_def lit_def)
  moreover have "is_target (lit ''/api/health'')" "is_target (lit ''/api/data'')"
    by (simp_all add: is_target_def target_char_def alnum_def lit_def)
  moreover have "is_value (lit ''localhost'')" "is_value (lit ''keep-alive'')"
    by (simp_all add: is_value_def lit_def)
  ultimately show ?thesis by (simp add: request_ok_def bench_headers_def)
qed

text \<open>C28: the request is framed as HTTP asks.  A reader that splits it at the line ends finds the request
  line, the headers and, for a payload, a body of exactly the announced length, made of the letter
  x; without a payload there is no body and no length.  Only a payload within 128 bytes of the
  longest string panics instead, and from 2 to the 63 on it always does.\<close>

theorem bench_request_framing:
  "case create_http_request n of
     Ok text \<Rightarrow> unat n < 2 ^ 63 \<and> read_response (as_bytes text) = Some
      (if n = 0 then
         (as_bytes (lit ''GET /api/health HTTP/1.1''),
          [(as_bytes (lit ''Host''), as_bytes (lit ''localhost'')),
           (as_bytes (lit ''Connection''), as_bytes (lit ''keep-alive''))], [])
       else
         (as_bytes (lit ''POST /api/data HTTP/1.1''),
          [(as_bytes (lit ''Host''), as_bytes (lit ''localhost'')),
           (as_bytes (lit ''Content-Length''), as_bytes (show_nat (unat n))),
           (as_bytes (lit ''Connection''), as_bytes (lit ''keep-alive''))], replicate (unat n) 120))
   | Err e \<Rightarrow> False
   | Panic \<Rightarrow> 2 ^ 63 \<le> unat n + 128"
proof (cases n rule: create_http_request_cases)
  case made
  have line: "lit ''GET'' @ lit '' '' @ lit ''/api/health'' @ lit '' HTTP/1.'' @ [49] = lit ''GET /api/health HTTP/1.1''"
    "lit ''POST'' @ lit '' '' @ lit ''/api/data'' @ lit '' HTTP/1.'' @ [49] = lit ''POST /api/data HTTP/1.1''"
    by (simp_all add: lit_def)
  have "read_response (as_bytes (bench_head n) @ replicate (unat n) 120) =
      Some (as_bytes (if n = 0 then lit ''GET /api/health HTTP/1.1'' else lit ''POST /api/data HTTP/1.1''),
        map (\<lambda>(n, v). (as_bytes n, as_bytes v)) (bench_headers n), replicate (unat n) 120)"
    unfolding bench_head_def read_rendered [OF bench_request_ok]
    by (cases "n = 0") (simp_all only: if_True if_False simp_thms line; simp add: line)+
  with made show ?thesis
    by (simp add: as_bytes_replicate u8_of_numeral bench_headers_def)
qed simp

section \<open>Percentiles\<close>

lemma percentile_at:
  assumes "length xs * 99 < 2 ^ 64" and "xs \<noteq> []" and "p \<le> 99"
  shows "percentile (word_of_nat p) xs = Ok (xs ! (length xs * p div 100)) \<and> length xs * p div 100 < length xs"
proof -
  have le: "length xs * p \<le> length xs * 99" using assms(3) by simp
  then have small: "length xs * p < 2 ^ 64" using assms(1) by (rule le_less_trans)
  have lt: "length xs * p div 100 < length xs"
    using assms(2) le by (intro div_less_iff_less_mult [THEN iffD2]) (auto simp: length_greater_0_conv intro: le_less_trans)
  have "unat (word_of_nat (length xs) * word_of_nat p :: u64) = length xs * p"
    using small unat_of_nat_u64 [of "length xs * p"] by simp
  then have "unat (word_of_nat (length xs) * word_of_nat p div (100 :: u64)) = length xs * p div 100"
    by (simp add: unat_div)
  with lt show ?thesis by (simp add: percentile_def Let_def)
qed

lemma filter_le_sorted:
  fixes xs :: "'a :: linorder list"
  assumes "sorted xs" and "i < length xs"
  shows "i < length (filter (\<lambda>x. x \<le> xs ! i) xs)"
proof -
  have "\<forall>x \<in> set (take (Suc i) xs). x \<le> xs ! i"
  proof
    fix x
    assume "x \<in> set (take (Suc i) xs)"
    then obtain j where "j \<le> i" "x = xs ! j"
      using assms(2) by (auto simp: in_set_conv_nth less_Suc_eq_le)
    then show "x \<le> xs ! i"
      using sorted_nth_mono [OF assms(1) _ assms(2)] by simp
  qed
  then have "filter (\<lambda>x. x \<le> xs ! i) (take (Suc i) xs) = take (Suc i) xs"
    by (simp add: filter_id_conv)
  then have "length (filter (\<lambda>x. x \<le> xs ! i) (take (Suc i) xs @ drop (Suc i) xs)) \<ge> Suc i"
    using assms(2) by (simp only: filter_append) simp
  then show ?thesis by simp
qed

text \<open>C20: the percentiles are in range and are percentiles.  With at least one latency (and no more than
  fit a 64-bit product) the report does not panic, and each value it prints for p percent is one of
  the latencies that at least p percent of the latencies do not exceed; the three are in order.\<close>

theorem percentiles_in_bounds:
  assumes "latencies st \<noteq> []" and "length (latencies st) * 99 < 2 ^ 64"
  shows "\<exists>p50 p95 p99 lines. print_results fl elapsed st =
      (Ok (lines @ [lit ''  p50: '' @ f_ms2 fl p50 @ lit ''ms'', lit ''  p95: '' @ f_ms2 fl p95 @ lit ''ms'',
          lit ''  p99: '' @ f_ms2 fl p99 @ lit ''ms'']), st\<lparr>latencies := sort (latencies st)\<rparr>) \<and>
    p50 \<le> p95 \<and> p95 \<le> p99 \<and> {p50, p95, p99} \<subseteq> set (latencies st) \<and>
    length (latencies st) * 50 \<le> 100 * length (filter (\<lambda>l. l \<le> p50) (latencies st)) \<and>
    length (latencies st) * 95 \<le> 100 * length (filter (\<lambda>l. l \<le> p95) (latencies st)) \<and>
    length (latencies st) * 99 \<le> 100 * length (filter (\<lambda>l. l \<le> p99) (latencies st))"
proof -
  define xs where "xs = sort (latencies st)"
  have len: "length xs = length (latencies st)" "xs \<noteq> []" and srt: "sorted xs" and st: "set xs = set (latencies st)"
    using assms(1) by (auto simp: xs_def dest: arg_cong [of _ _ length])
  have small: "length xs * 99 < 2 ^ 64" using assms(2) len(1) by simp
  let ?i = "\<lambda>p. length xs * p div 100"
  have at: "percentile 50 xs = Ok (xs ! ?i 50)" "?i 50 < length xs"
    "percentile 95 xs = Ok (xs ! ?i 95)" "?i 95 < length xs"
    "percentile 99 xs = Ok (xs ! ?i 99)" "?i 99 < length xs"
    using percentile_at [OF small len(2), of 50] percentile_at [OF small len(2), of 95]
      percentile_at [OF small len(2), of 99] by simp_all
  have rank: "length xs * p \<le> 100 * length (filter (\<lambda>l. l \<le> xs ! ?i p) (latencies st))"
    if "?i p < length xs" for p
  proof -
    have "length (filter (\<lambda>l. l \<le> xs ! ?i p) xs) = length (filter (\<lambda>l. l \<le> xs ! ?i p) (latencies st))"
      unfolding xs_def filter_sort by simp
    with filter_le_sorted [OF srt that] have
      "length xs * p div 100 < length (filter (\<lambda>l. l \<le> xs ! ?i p) (latencies st))" by simp
    then show ?thesis by linarith
  qed
  have "xs ! ?i 50 \<le> xs ! ?i 95" "xs ! ?i 95 \<le> xs ! ?i 99"
    using at srt by (auto intro!: sorted_nth_mono div_le_mono)
  moreover have "{xs ! ?i 50, xs ! ?i 95, xs ! ?i 99} \<subseteq> set (latencies st)"
    using at st nth_mem by blast
  moreover have "\<exists>lines. print_results fl elapsed st =
      (Ok (lines @ [lit ''  p50: '' @ f_ms2 fl (xs ! ?i 50) @ lit ''ms'',
          lit ''  p95: '' @ f_ms2 fl (xs ! ?i 95) @ lit ''ms'',
          lit ''  p99: '' @ f_ms2 fl (xs ! ?i 99) @ lit ''ms'']), st\<lparr>latencies := xs\<rparr>)"
    using at(1,3,5) len(2)
    by (simp add: print_results_def percentile_lines_def Let_def flip: xs_def append_assoc)
  ultimately show ?thesis
    using rank [OF at(2)] rank [OF at(4)] rank [OF at(6)] unfolding xs_def [symmetric] len(1)
    by blast
qed

text \<open>A rendering to evaluate with: nanoseconds and counters in full.\<close>

definition plain_fmt :: float_fmt where
  "plain_fmt =
    \<lparr>f_secs2 = (\<lambda>d. show_nat (unat (d_secs d))), f_rps2 = (\<lambda>n d. show_nat (unat n)),
     f_mbps2 = (\<lambda>n d. show_nat (unat n)), f_ms2 = (\<lambda>d. show_nat (unat (d_nanos d))),
     f_ms3 = (\<lambda>d. show_nat (unat (d_nanos d)))\<rparr>"

theorem percentiles_in_bounds_witness:
  "\<exists>p50 lines. print_results plain_fmt (Duration 1 0)
      \<lparr>total_requests = 2, total_bytes = 0, latencies = [Duration 0 9, Duration 0 7]\<rparr> =
      (Ok lines, \<lparr>total_requests = 2, total_bytes = 0, latencies = [Duration 0 7, Duration 0 9]\<rparr>) \<and>
    lit ''  p50: '' @ show_nat (unat (d_nanos p50)) @ lit ''ms'' \<in> set lines \<and>
    p50 \<in> {Duration 0 9, Duration 0 7}"
proof -
  let ?st = "\<lparr>total_requests = 2, total_bytes = 0, latencies = [Duration 0 9, Duration 0 7]\<rparr>"
  have "latencies ?st \<noteq> []" "length (latencies ?st) * 99 < 2 ^ 64" by simp_all
  from percentiles_in_bounds [OF this, of plain_fmt "Duration 1 0"] obtain p50 p95 p99 lines where
    "print_results plain_fmt (Duration 1 0) ?st =
      (Ok (lines @ [lit ''  p50: '' @ f_ms2 plain_fmt p50 @ lit ''ms'',
          lit ''  p95: '' @ f_ms2 plain_fmt p95 @ lit ''ms'',
          lit ''  p99: '' @ f_ms2 plain_fmt p99 @ lit ''ms'']), ?st\<lparr>latencies := sort (latencies ?st)\<rparr>)"
    "p50 \<in> {Duration 0 9, Duration 0 7}"
    by auto
  then show ?thesis
    by (intro exI [of _ p50]) (simp add: plain_fmt_def less_eq_duration_def)
qed

section \<open>The CSV file\<close>

text \<open>The rows of the CSV file are not the requests.  Exported after the results are printed, as the
  program does, row \<open>i\<close> carries the \<open>i\<close>-th smallest latency: the report sorts the shared list in
  place, so the column \<open>request_num\<close> is a rank and the order of the requests is lost.\<close>

theorem csv_rows_sorted:
  "csv_lines fl (snd (print_results fl' elapsed st)) =
    lit ''request_num,latency_ms'' #
    map (\<lambda>i. show_nat i @ lit '','' @ f_ms3 fl (sort (latencies st) ! i)) [0 ..< length (latencies st)]"
  by (auto simp: csv_lines_def print_results_def Let_def enumerate_eq_zip zip_map1 comp_def
      intro!: nth_equalityI)

end
