(* ===== verification/Bench_Run.thy ===== *)
theory Bench_Run
  imports Bench Syscalls
begin

text \<open>
  \<open>bench/run_bench.rs\<close>, second part: the connection workers, as straight-line code and as the atomic
  steps that interleave on the shared statistics, the run of a benchmark, and \<open>main\<close>.  Sockets,
  clock, CSV file and the scheduling of the threads are parameters.
\<close>

section \<open>A connection worker\<close>

text \<open>
  \<open>nt_now\<close> and \<open>nt_elapsed\<close> are \<open>Instant::now\<close> and \<open>elapsed\<close>; \<open>nt_read\<close> gets the size of the buffer and
  gives the number of bytes read.  \<open>cf_create\<close> and \<open>cf_writeln\<close> are the CSV file behind its buffer.
\<close>

record ('w, 'c) client_net =
  nt_connect :: "rstr \<Rightarrow> 'w \<Rightarrow> 'c option \<times> 'w"
  nt_now :: "'w \<Rightarrow> duration \<times> 'w"
  nt_elapsed :: "duration \<Rightarrow> 'w \<Rightarrow> duration \<times> 'w"
  nt_write_all :: "'c \<Rightarrow> byte list \<Rightarrow> 'w \<Rightarrow> bool \<times> 'w"
  nt_flush :: "'c \<Rightarrow> 'w \<Rightarrow> bool \<times> 'w"
  nt_read :: "'c \<Rightarrow> nat \<Rightarrow> 'w \<Rightarrow> u64 option \<times> 'w"
  cf_create :: "rstr \<Rightarrow> 'w \<Rightarrow> bool \<times> 'w"
  cf_writeln :: "rstr \<Rightarrow> 'w \<Rightarrow> bool \<times> 'w"

definition target_addr :: "bench_config \<Rightarrow> rstr" where
  "target_addr config = target_host config @ lit '':'' @ show_nat (unat (target_port config))"

text \<open>One request and one read of at most 4096 bytes, timed.\<close>

definition exchange :: "('w, 'c) client_net \<Rightarrow> 'c \<Rightarrow> byte list \<Rightarrow> ('w, u64 \<times> duration) io" where
  "exchange nt stream request w =
    (let (start, w) = nt_now nt w;
         (written, w) = nt_write_all nt stream request w in
     if \<not> written then (Err StreamWriteFailed, w)
     else
       let (flushed, w) = nt_flush nt stream w in
       if \<not> flushed then (Err StreamWriteFailed, w)
       else
         case nt_read nt stream 4096 w of
           (None, w) \<Rightarrow> (Err StreamReadFailed, w)
         | (Some bytes_read, w) \<Rightarrow>
             (let (latency, w) = nt_elapsed nt start w in (Ok (bytes_read, latency), w)))"

fun request_loop ::
    "('w, 'c) client_net \<Rightarrow> 'c \<Rightarrow> byte list \<Rightarrow> nat \<Rightarrow> ('w \<times> bench_stats, unit) io" where
  "request_loop nt stream request 0 s = (Ok (), s)"
| "request_loop nt stream request (Suc n) (w, st) =
    (case exchange nt stream request w of
       (Ok (bytes_read, latency), w) \<Rightarrow>
         request_loop nt stream request n (w, record_request bytes_read latency st)
     | (Err e, w) \<Rightarrow> (Err e, (w, st))
     | (Panic, w) \<Rightarrow> (Panic, (w, st)))"

definition run_connection_worker ::
    "('w, 'c) client_net \<Rightarrow> bench_config \<Rightarrow> ('w \<times> bench_stats, unit) io" where
  "run_connection_worker nt config = (\<lambda>(w, st).
    case nt_connect nt (target_addr config) w of
      (None, w) \<Rightarrow> (Err ConnectFailed, (w, st))
    | (Some stream, w) \<Rightarrow>
        (case create_http_request (payload_size config) of
           Ok request \<Rightarrow>
             request_loop nt stream (as_bytes request) (unat (requests_per_connection config)) (w, st)
         | Err e \<Rightarrow> (Err e, (w, st))
         | Panic \<Rightarrow> (Panic, (w, st))))"

section \<open>Its atomic steps\<close>

text \<open>
  Where a worker's thread is, with its stream, its request and the requests it still has to record:
  not yet connected, at the head of its loop, at one of the three steps of \<open>record_request\<close>, at its end
  (with the error, if any), or panicked.
\<close>

datatype 'c bw_pc =
    BwStart
  | BwLoop 'c "byte list" nat
  | BwCount 'c "byte list" nat u64 duration
  | BwBytes 'c "byte list" nat u64 duration
  | BwPush 'c "byte list" nat duration
  | BwEnd "err option" nat
  | BwPanic nat

fun bw_step ::
    "('w, 'c) client_net \<Rightarrow> bench_config \<Rightarrow> 'c bw_pc \<Rightarrow> 'w \<Rightarrow> bench_stats \<Rightarrow> 'c bw_pc \<times> 'w \<times> bench_stats" where
  "bw_step nt config BwStart w st =
    (let reqs = unat (requests_per_connection config) in
     case nt_connect nt (target_addr config) w of
       (None, w) \<Rightarrow> (BwEnd (Some ConnectFailed) reqs, w, st)
     | (Some stream, w) \<Rightarrow>
         (case create_http_request (payload_size config) of
            Ok request \<Rightarrow> (BwLoop stream (as_bytes request) reqs, w, st)
          | Err e \<Rightarrow> (BwEnd (Some e) reqs, w, st)
          | Panic \<Rightarrow> (BwPanic reqs, w, st)))"
| "bw_step nt config (BwLoop stream request 0) w st = (BwEnd None 0, w, st)"
| "bw_step nt config (BwLoop stream request (Suc n)) w st =
    (case exchange nt stream request w of
       (Ok (bytes_read, latency), w) \<Rightarrow> (BwCount stream request n bytes_read latency, w, st)
     | (Err e, w) \<Rightarrow> (BwEnd (Some e) (Suc n), w, st)
     | (Panic, w) \<Rightarrow> (BwPanic (Suc n), w, st))"
| "bw_step nt config (BwCount stream request n bytes latency) w st =
    (BwBytes stream request n bytes latency, w, count_request st)"
| "bw_step nt config (BwBytes stream request n bytes latency) w st =
    (BwPush stream request n latency, w, count_bytes bytes st)"
| "bw_step nt config (BwPush stream request n latency) w st =
    (BwLoop stream request n, w, push_latency latency st)"
| "bw_step nt config (BwEnd e n) w st = (BwEnd e n, w, st)"
| "bw_step nt config (BwPanic n) w st = (BwPanic n, w, st)"

fun ended :: "'c bw_pc \<Rightarrow> bool" where
  "ended (BwEnd e n) = True"
| "ended _ = False"

fun panicked :: "'c bw_pc \<Rightarrow> bool" where
  "panicked (BwPanic n) = True"
| "panicked _ = False"

text \<open>The pool also remembers the sizes of the replies received, for the theorems.\<close>

record ('w, 'c) bench_pool =
  bp_threads :: "'c bw_pc list"
  bp_world :: 'w
  bp_stats :: bench_stats
  bp_replies :: "u64 list"

fun new_reply :: "'c bw_pc \<Rightarrow> 'c bw_pc \<Rightarrow> u64 list" where
  "new_reply (BwLoop _ _ _) (BwCount _ _ _ bytes _) = [bytes]"
| "new_reply _ _ = []"

text \<open>A panic in one thread aborts the process: no thread takes another step.\<close>

definition pool_step ::
    "('w, 'c) client_net \<Rightarrow> bench_config \<Rightarrow> nat \<Rightarrow> ('w, 'c) bench_pool \<Rightarrow> ('w, 'c) bench_pool" where
  "pool_step nt config i p =
    (if i < length (bp_threads p) \<and> \<not> list_ex panicked (bp_threads p) then
       let (pc, w, st) = bw_step nt config (bp_threads p ! i) (bp_world p) (bp_stats p) in
       p\<lparr>bp_threads := (bp_threads p)[i := pc], bp_world := w, bp_stats := st,
         bp_replies := bp_replies p @ new_reply (bp_threads p ! i) pc\<rparr>
     else p)"

definition start_pool :: "bench_config \<Rightarrow> 'w \<Rightarrow> ('w, 'c) bench_pool" where
  "start_pool config w =
    \<lparr>bp_threads = replicate (unat (num_connections config)) BwStart, bp_world = w,
     bp_stats = BenchmarkStats_new, bp_replies = []\<rparr>"

section \<open>A benchmark\<close>

definition export_csv ::
    "('w, 'c) client_net \<Rightarrow> float_fmt \<Rightarrow> rstr \<Rightarrow> bench_stats \<Rightarrow> ('w, rstr list) io" where
  "export_csv nt fl filename st w =
    (case cf_create nt filename w of
       (False, w) \<Rightarrow> (Err CsvFailed, w)
     | (True, w) \<Rightarrow>
         (case fold (\<lambda>l (ok, w). if ok then cf_writeln nt l w else (False, w)) (csv_lines fl st) (True, w) of
            (False, w) \<Rightarrow> (Err CsvFailed, w)
          | (True, w) \<Rightarrow> (Ok [lit ''Exported results to '' @ filename], w)))"

definition start_lines :: "bench_config \<Rightarrow> rstr list" where
  "start_lines config =
    [lit ''Starting benchmark...'', lit ''Target: '' @ target_addr config,
     lit ''Connections: '' @ show_nat (unat (num_connections config)),
     lit ''Requests per connection: '' @ show_nat (unat (requests_per_connection config)),
     lit ''Payload size: '' @ show_nat (unat (payload_size config)) @ lit '' bytes'', []]"

text \<open>
  The threads run as \<open>sched\<close> says, one index per step; the joins return when every thread has ended,
  and until then there is no result; a panic aborts the run.  The lines are those of the standard output; the messages of
  failed workers go to the standard error, which is left out.
\<close>

definition run_benchmark ::
    "('w, 'c) client_net \<Rightarrow> float_fmt \<Rightarrow> bench_config \<Rightarrow> nat list \<Rightarrow> 'w \<Rightarrow> (unit res \<times> rstr list \<times> 'w) option" where
  "run_benchmark nt fl config sched w =
    (let (start, w) = nt_now nt w;
         p = fold (pool_step nt config) sched (start_pool config w) in
     if list_ex panicked (bp_threads p) then Some (Panic, start_lines config, bp_world p)
     else if \<not> list_all ended (bp_threads p) then None
     else
       let (elapsed, w) = nt_elapsed nt start (bp_world p);
           (printed, st) = print_results fl elapsed (bp_stats p) in
       Some (case printed of
           Ok ls \<Rightarrow>
             (case export_csv nt fl (lit ''benchmark_results.csv'') st w of
                (Ok ls', w) \<Rightarrow> (Ok (), start_lines config @ ls @ ls', w)
              | (Err e, w) \<Rightarrow> (Err e, start_lines config @ ls, w)
              | (Panic, w) \<Rightarrow> (Panic, start_lines config @ ls, w))
         | Err e \<Rightarrow> (Err e, start_lines config, w)
         | Panic \<Rightarrow> (Panic, start_lines config, w)))"

definition bench_help :: "rstr list" where
  "bench_help = map lit
    ['''', ''Benchmark Tool for RustKernelEngine'', '''', ''USAGE:'', ''    bench [OPTIONS]'', '''',
     ''OPTIONS:'',
     ''    --host <HOST>           Target host (default: 127.0.0.1)'',
     ''    --port <PORT>           Target port (default: 8080)'',
     ''    -c, --connections <N>   Number of concurrent connections (default: 10)'',
     ''    -n, --requests <N>      Requests per connection (default: 1000)'',
     ''    -p, --payload <BYTES>   Payload size in bytes (default: 128)'',
     ''    -h, --help              Print this help'', '''',
     ''EXAMPLES:'', ''    bench --host localhost --port 8080 -c 100 -n 10000'',
     ''    bench -c 50 -n 5000 -p 1024'', ''    bench -p 10240  # 10KB payload'', '''']"

definition bench_main ::
    "('w, 'c) client_net \<Rightarrow> float_fmt \<Rightarrow> rstr list \<Rightarrow> nat list \<Rightarrow> 'w \<Rightarrow> (unit res \<times> rstr list \<times> 'w) option" where
  "bench_main nt fl args sched w =
    (let title = [lit ''RustKernelEngine Benchmark Tool'', []] in
     case bench_parse_args args of
       BenchHelp \<Rightarrow> Some (Ok (), title @ bench_help, w)
     | BenchRun config \<Rightarrow>
         map_option (\<lambda>(r, out, w).
             (r, title @ out @ (if r = Ok () then map lit
                ['''', ''Run different payload sizes:'',
                 ''  128B:  cargo run --bin bench --release -- -p 128'',
                 ''  1KB:   cargo run --bin bench --release -- -p 1024'',
                 ''  10KB:  cargo run --bin bench --release -- -p 10240''] else []), w))
           (run_benchmark nt fl config sched w))"

section \<open>The two views of a worker agree\<close>

lemma exchange_not_Panic: "exchange nt stream request w \<noteq> (Panic, w')"
  by (auto simp: exchange_def Let_def split: prod.splits option.splits if_splits)

text \<open>A worker's steps with no other thread in between, and where they end.\<close>

fun bw_alone ::
    "('w, 'c) client_net \<Rightarrow> bench_config \<Rightarrow> nat \<Rightarrow> 'c bw_pc \<times> 'w \<times> bench_stats \<Rightarrow> 'c bw_pc \<times> 'w \<times> bench_stats" where
  "bw_alone nt config 0 s = s"
| "bw_alone nt config (Suc k) (pc, w, st) = bw_alone nt config k (bw_step nt config pc w st)"

fun end_pc :: "unit res \<Rightarrow> nat \<Rightarrow> 'c bw_pc" where
  "end_pc (Ok u) left = BwEnd None left"
| "end_pc (Err e) left = BwEnd (Some e) left"
| "end_pc Panic left = BwPanic left"

lemma bw_alone_step: "bw_step nt config pc w st = (pc', w', st') \<Longrightarrow>
    bw_alone nt config (Suc k) (pc, w, st) = bw_alone nt config k (pc', w', st')"
  by simp

lemma loop_alone:
  assumes "request_loop nt stream request n (w, st) = (r, (w', st'))"
  shows "\<exists>k left. bw_alone nt config k (BwLoop stream request n, w, st) = (end_pc r left, w', st')"
  using assms
proof (induction n arbitrary: w st)
  case 0
  show ?case by (rule exI [of _ 1], rule exI [of _ 0]) (use 0 in auto)
next
  case (Suc n)
  obtain x w1 where x: "exchange nt stream request w = (x, w1)" by (rule prod.exhaust)
  show ?case
  proof (cases x)
    case (Ok y)
    obtain bytes lat where y: "y = (bytes, lat)" by (rule prod.exhaust)
    from Suc.prems x Ok y have "request_loop nt stream request n (w1, record_request bytes lat st) = (r, (w', st'))"
      by simp
    from Suc.IH [OF this] obtain k left where k:
      "bw_alone nt config k (BwLoop stream request n, w1, record_request bytes lat st) = (end_pc r left, w', st')"
      by blast
    have "bw_alone nt config (Suc (Suc (Suc (Suc k)))) (BwLoop stream request (Suc n), w, st) = (end_pc r left, w', st')"
      using k x Ok y by (simp add: record_request_def)
    then show ?thesis by blast
  next
    case (Err e)
    show ?thesis
      by (rule exI [of _ 1], rule exI [of _ "Suc n"]) (use Suc.prems x Err in auto)
  next
    case Panic
    with x show ?thesis by (simp add: exchange_not_Panic)
  qed
qed

lemma worker_alone:
  assumes "run_connection_worker nt config (w, st) = (r, (w', st'))"
  shows "\<exists>k left. bw_alone nt config k (BwStart, w, st) = (end_pc r left, w', st')"
proof -
  let ?reqs = "unat (requests_per_connection config)"
  obtain c w1 where c: "nt_connect nt (target_addr config) w = (c, w1)" by (rule prod.exhaust)
  show ?thesis
  proof (cases "\<exists>stream request. c = Some stream \<and> create_http_request (payload_size config) = Ok request")
    case True
    then obtain stream request where ok: "c = Some stream" "create_http_request (payload_size config) = Ok request"
      by blast
    with assms c have "request_loop nt stream (as_bytes request) ?reqs (w1, st) = (r, (w', st'))"
      by (simp add: run_connection_worker_def)
    from loop_alone [OF this] obtain k left where
      "bw_alone nt config k (BwLoop stream (as_bytes request) ?reqs, w1, st) = (end_pc r left, w', st')" by blast
    then have "bw_alone nt config (Suc k) (BwStart, w, st) = (end_pc r left, w', st')"
      using ok c by (simp add: Let_def)
    then show ?thesis by blast
  next
    case False
    then have "bw_alone nt config 1 (BwStart, w, st) = (end_pc r ?reqs, w', st')"
      using assms c by (cases c; cases "create_http_request (payload_size config)")
        (auto simp: run_connection_worker_def Let_def)
    then show ?thesis by blast
  qed
qed

section \<open>What a worker says on its connection\<close>

text \<open>A client's sockets and clock that also write down every call, with what \<open>now\<close> answered.\<close>

datatype 'c client_call =
    CallConnect rstr
  | CallNow duration
  | CallWrite 'c "byte list"
  | CallFlush 'c
  | CallRead 'c nat
  | CallElapsed duration

definition noting :: "'k \<Rightarrow> ('w \<Rightarrow> 'r \<times> 'w) \<Rightarrow> 'w \<times> 'k list \<Rightarrow> 'r \<times> ('w \<times> 'k list)" where
  "noting k f = (\<lambda>(w, ks). let (r, w) = f w in (r, (w, ks @ [k])))"

definition recording :: "('w, 'c) client_net \<Rightarrow> ('w \<times> 'c client_call list, 'c) client_net" where
  "recording nt =
    \<lparr>nt_connect = (\<lambda>a. noting (CallConnect a) (nt_connect nt a)),
     nt_now = (\<lambda>(w, ks). let (t, w) = nt_now nt w in (t, (w, ks @ [CallNow t]))),
     nt_elapsed = (\<lambda>t. noting (CallElapsed t) (nt_elapsed nt t)),
     nt_write_all = (\<lambda>c bs. noting (CallWrite c bs) (nt_write_all nt c bs)),
     nt_flush = (\<lambda>c. noting (CallFlush c) (nt_flush nt c)),
     nt_read = (\<lambda>c n. noting (CallRead c n) (nt_read nt c n)),
     cf_create = (\<lambda>f (w, ks). let (ok, w) = cf_create nt f w in (ok, (w, ks))),
     cf_writeln = (\<lambda>l (w, ks). let (ok, w) = cf_writeln nt l w in (ok, (w, ks)))\<rparr>"

text \<open>One round: the request goes out and is flushed, one read into 4096 bytes, the time since before.\<close>

definition one_round :: "'c \<Rightarrow> byte list \<Rightarrow> duration \<Rightarrow> 'c client_call list" where
  "one_round stream request t =
    [CallNow t, CallWrite stream request, CallFlush stream, CallRead stream 4096, CallElapsed t]"

definition sent_request :: "bench_config \<Rightarrow> byte list \<Rightarrow> bool" where
  "sent_request config request \<longleftrightarrow>
    (\<exists>s. create_http_request (payload_size config) = Ok s \<and> request = as_bytes s)"

text \<open>A round can break off while sending or in the read.\<close>

definition broken_round :: "'c \<Rightarrow> byte list \<Rightarrow> err \<Rightarrow> 'c client_call list \<Rightarrow> bool" where
  "broken_round stream request e ks \<longleftrightarrow>
    (\<exists>t. (e = StreamWriteFailed \<and> ks \<in> {take 2 (one_round stream request t), take 3 (one_round stream request t)}) \<or>
         (e = StreamReadFailed \<and> ks = take 4 (one_round stream request t)))"

lemma exchange_recorded:
  assumes "exchange (recording nt) stream request (w, ks) = (x, (w', ks'))"
  shows "case x of Ok y \<Rightarrow> (\<exists>t. ks' = ks @ one_round stream request t)
    | Err e \<Rightarrow> (\<exists>ks1. ks' = ks @ ks1 \<and> broken_round stream request e ks1)
    | Panic \<Rightarrow> False"
  using assms
  by (auto simp: exchange_def recording_def noting_def one_round_def broken_round_def Let_def
      split: prod.splits if_splits option.splits)

lemma loop_recorded:
  assumes "request_loop (recording nt) stream request n ((w, ks), st) = (r, ((w', ks'), st'))"
  shows "\<exists>ts rest. ks' = ks @ concat (map (one_round stream request) ts) @ rest \<and>
    (case r of Ok u \<Rightarrow> length ts = n \<and> rest = []
     | Err e \<Rightarrow> length ts < n \<and> broken_round stream request e rest
     | Panic \<Rightarrow> False) \<and>
    length (latencies st') = length (latencies st) + length ts \<and>
    total_requests st' = total_requests st + word_of_nat (length ts)"
  using assms
proof (induction n arbitrary: w ks st)
  case 0
  then show ?case by (auto intro: exI [of _ "[]"])
next
  case (Suc n)
  obtain x w1 ks1 where x: "exchange (recording nt) stream request (w, ks) = (x, (w1, ks1))"
    by (metis prod.exhaust)
  note step = exchange_recorded [OF x]
  show ?case
  proof (cases x)
    case (Ok y)
    obtain bytes lat where y: "y = (bytes, lat)" by (rule prod.exhaust)
    from step Ok obtain t where t: "ks1 = ks @ one_round stream request t" by auto
    from Suc.prems x Ok y have
      "request_loop (recording nt) stream request n ((w1, ks1), record_request bytes lat st) = (r, ((w', ks'), st'))"
      by simp
    from Suc.IH [OF this] obtain ts rest where
      "ks' = ks1 @ concat (map (one_round stream request) ts) @ rest"
      "case r of Ok u \<Rightarrow> length ts = n \<and> rest = []
        | Err e \<Rightarrow> length ts < n \<and> broken_round stream request e rest | Panic \<Rightarrow> False"
      "length (latencies st') = length (latencies st) + 1 + length ts"
      "total_requests st' = total_requests st + 1 + word_of_nat (length ts)"
      by (auto simp: record_request_def count_request_def count_bytes_def push_latency_def)
    with t show ?thesis
      by (intro exI [of _ "t # ts"] exI [of _ rest]) (auto split: res.splits)
  next
    case (Err e)
    with step obtain ks2 where "ks1 = ks @ ks2" "broken_round stream request e ks2" by auto
    with Suc.prems x Err show ?thesis
      by (intro exI [of _ "[]"] exI [of _ ks2]) auto
  next
    case Panic
    with step show ?thesis by simp
  qed
qed

text \<open>C34: what a worker says on its connection.  Whatever sockets and clock answer, a worker connects to the
  configured address and then makes whole rounds on that one connection: the request is written and
  flushed, one read of at most 4096 bytes is made, and the time is taken from before the write to
  after the read; each whole round is counted as one request with one latency.  It ends well exactly
  after the configured number of rounds; a failure to send or to read breaks the round off and ends
  the worker with that error, and only a request too long for a string makes it panic.  The atomic
  steps of the thread, run alone, make the same calls and end alike.\<close>

theorem worker_conversation:
  assumes "run_connection_worker (recording nt) config ((w, []), st) = (r, ((w', calls), st'))"
  shows "\<exists>stream request ts rest.
    calls = CallConnect (target_addr config) # concat (map (one_round stream request) ts) @ rest \<and>
    (case r of
       Ok u \<Rightarrow> sent_request config request \<and>
         length ts = unat (requests_per_connection config) \<and> rest = []
     | Err e \<Rightarrow> (e = ConnectFailed \<and> ts = [] \<and> rest = []) \<or>
         (sent_request config request \<and>
          length ts < unat (requests_per_connection config) \<and> broken_round stream request e rest)
     | Panic \<Rightarrow> create_http_request (payload_size config) = Panic \<and> ts = [] \<and> rest = []) \<and>
    length (latencies st') = length (latencies st) + length ts \<and>
    total_requests st' = total_requests st + word_of_nat (length ts) \<and>
    (\<exists>k left. bw_alone (recording nt) config k (BwStart, (w, []), st) = (end_pc r left, (w', calls), st'))"
proof -
  let ?create = "create_http_request (payload_size config)"
  obtain c w1 where c: "nt_connect nt (target_addr config) w = (c, w1)" by (rule prod.exhaust)
  then have conn: "nt_connect (recording nt) (target_addr config) (w, []) =
      (c, (w1, [CallConnect (target_addr config)]))"
    by (simp add: recording_def noting_def)
  note alone = worker_alone [OF assms]
  show ?thesis
  proof (cases "\<exists>stream msg. c = Some stream \<and> ?create = Ok msg")
    case True
    then obtain stream msg where ok: "c = Some stream" "?create = Ok msg" by blast
    with assms conn have "request_loop (recording nt) stream (as_bytes msg) (unat (requests_per_connection config))
        ((w1, [CallConnect (target_addr config)]), st) = (r, ((w', calls), st'))"
      by (simp add: run_connection_worker_def)
    from loop_recorded [OF this] obtain ts rest where
      "calls = CallConnect (target_addr config) # concat (map (one_round stream (as_bytes msg)) ts) @ rest"
      "case r of Ok u \<Rightarrow> length ts = unat (requests_per_connection config) \<and> rest = []
        | Err e \<Rightarrow> length ts < unat (requests_per_connection config) \<and> broken_round stream (as_bytes msg) e rest
        | Panic \<Rightarrow> False"
      "length (latencies st') = length (latencies st) + length ts"
      "total_requests st' = total_requests st + word_of_nat (length ts)" by auto
    with ok alone show ?thesis
      unfolding sent_request_def
      by (intro exI [of _ stream] exI [of _ "as_bytes msg"] exI [of _ ts] exI [of _ rest])
        (auto split: res.splits)
  next
    case False
    then have end_now: "calls = [CallConnect (target_addr config)]" "st' = st"
      "(c = None \<and> r = Err ConnectFailed) \<or> (?create = Panic \<and> r = Panic)"
      using assms conn create_http_request_cases [of "payload_size config"]
      by (cases c; cases ?create; auto simp: run_connection_worker_def)+
    show ?thesis
      by (intro exI [of _ undefined] exI [of _ "[]"])
        (use end_now alone in auto)
  qed
qed

text \<open>A server that answers every request with ten bytes at once.\<close>

definition echo_net :: "(unit, unit) client_net" where
  "echo_net =
    \<lparr>nt_connect = (\<lambda>_ w. (Some (), w)), nt_now = (\<lambda>w. (Duration 0 0, w)),
     nt_elapsed = (\<lambda>_ w. (Duration 0 5, w)), nt_write_all = (\<lambda>_ _ w. (True, w)),
     nt_flush = (\<lambda>_ w. (True, w)), nt_read = (\<lambda>_ _ w. (Some 10, w)),
     cf_create = (\<lambda>_ w. (True, w)), cf_writeln = (\<lambda>_ w. (True, w))\<rparr>"

definition demo_bench :: bench_config where
  "demo_bench = \<lparr>target_host = [], target_port = 80, num_connections = 2, requests_per_connection = 1,
     payload_size = 0, duration_secs = 60\<rparr>"

lemma echo_exchange: "exchange echo_net () r () = (Ok (10, Duration 0 5), ())"
  by (simp add: exchange_def echo_net_def)

lemma echo_connect: "nt_connect echo_net a () = (Some (), ())"
  by (simp add: echo_net_def)

lemma demo_bench_sizes:
  "unat (requests_per_connection demo_bench) = 1" "unat (num_connections demo_bench) = 2"
  by (simp_all add: demo_bench_def)

lemma demo_request: "\<exists>msg. create_http_request (payload_size demo_bench) = Ok msg"
  by (cases "payload_size demo_bench" rule: create_http_request_cases) (simp_all add: demo_bench_def)

theorem worker_conversation_witness:
  "\<exists>request st'. run_connection_worker (recording echo_net) demo_bench (((), []), BenchmarkStats_new) =
      (Ok (), (((), CallConnect (target_addr demo_bench) # one_round () request (Duration 0 0)), st')) \<and>
    length (latencies st') = 1"
proof -
  obtain msg where msg: "create_http_request (payload_size demo_bench) = Ok msg"
    using demo_request by blast
  let ?calls = "CallConnect (target_addr demo_bench) # one_round () (as_bytes msg) (Duration 0 0)"
  have run: "run_connection_worker (recording echo_net) demo_bench (((), []), BenchmarkStats_new) =
      (Ok (), (((), ?calls), record_request 10 (Duration 0 5) BenchmarkStats_new))"
    by (simp add: run_connection_worker_def msg demo_bench_sizes exchange_def recording_def noting_def
        echo_net_def one_round_def)
  from worker_conversation [OF run] obtain ts :: "duration list" where
    "length ts = unat (requests_per_connection demo_bench)"
    "length (latencies (record_request 10 (Duration 0 5) BenchmarkStats_new)) =
      length (latencies BenchmarkStats_new) + length ts" by auto
  with run show ?thesis
    by (auto simp: demo_bench_sizes BenchmarkStats_new_def)
qed

section \<open>Accounting in every interleaving\<close>

text \<open>What a thread still owes: requests not yet recorded, and what is between the steps.\<close>

fun left_of :: "nat \<Rightarrow> 'c bw_pc \<Rightarrow> nat" where
  "left_of reqs BwStart = reqs"
| "left_of reqs (BwLoop _ _ n) = n"
| "left_of reqs (BwCount _ _ n _ _) = Suc n"
| "left_of reqs (BwBytes _ _ n _ _) = Suc n"
| "left_of reqs (BwPush _ _ n _) = Suc n"
| "left_of reqs (BwEnd _ n) = n"
| "left_of reqs (BwPanic n) = n"

fun counted_early :: "'c bw_pc \<Rightarrow> nat" where
  "counted_early (BwBytes _ _ _ _ _) = 1"
| "counted_early (BwPush _ _ _ _) = 1"
| "counted_early _ = 0"

fun owed_bytes :: "'c bw_pc \<Rightarrow> u64" where
  "owed_bytes (BwCount _ _ _ b _) = b"
| "owed_bytes (BwBytes _ _ _ b _) = b"
| "owed_bytes _ = 0"

fun in_flight :: "'c bw_pc \<Rightarrow> nat" where
  "in_flight (BwCount _ _ _ _ _) = 1"
| "in_flight (BwBytes _ _ _ _ _) = 1"
| "in_flight (BwPush _ _ _ _) = 1"
| "in_flight _ = 0"

lemma bw_step_effect:
  assumes "bw_step nt config pc w st = (pc', w', st')"
  shows "length (latencies st') + left_of (unat (requests_per_connection config)) pc' =
      length (latencies st) + left_of (unat (requests_per_connection config)) pc"
    and "length (latencies st') + in_flight pc' = length (latencies st) + in_flight pc + length (new_reply pc pc')"
    and "total_requests st' + word_of_nat (length (latencies st) + counted_early pc) =
      total_requests st + word_of_nat (length (latencies st') + counted_early pc')"
    and "total_bytes st' + owed_bytes pc' = total_bytes st + owed_bytes pc + sum_list (new_reply pc pc')"
  using assms
  by (induction nt config pc w st rule: bw_step.induct)
     (auto simp: Let_def count_request_def count_bytes_def push_latency_def split: prod.splits option.splits res.splits)

lemma sum_list_upd:
  fixes f :: "'a \<Rightarrow> 'b :: comm_monoid_add"
  assumes "i < length xs"
  shows "sum_list (map f (xs[i := y])) + f (xs ! i) = sum_list (map f xs) + f y"
  using assms
proof (induction xs arbitrary: i)
  case (Cons x xs)
  then show ?case by (cases i) (simp_all add: ac_simps)
qed simp

definition pool_ok :: "bench_config \<Rightarrow> ('w, 'c) bench_pool \<Rightarrow> bool" where
  "pool_ok config p \<longleftrightarrow>
    (let ts = bp_threads p; st = bp_stats p; reqs = unat (requests_per_connection config) in
     length ts = unat (num_connections config) \<and>
     length (latencies st) + sum_list (map (left_of reqs) ts) = unat (num_connections config) * reqs \<and>
     length (latencies st) + sum_list (map in_flight ts) = length (bp_replies p) \<and>
     total_requests st = word_of_nat (length (latencies st) + sum_list (map counted_early ts)) \<and>
     total_bytes st + sum_list (map owed_bytes ts) = sum_list (bp_replies p))"

lemma pool_ok_start: "pool_ok config (start_pool config w)"
  by (simp add: pool_ok_def start_pool_def BenchmarkStats_new_def sum_list_replicate Let_def)

lemma pool_step_ok:
  assumes "pool_ok config p"
  shows "pool_ok config (pool_step nt config i p)"
proof (cases "i < length (bp_threads p) \<and> \<not> list_ex panicked (bp_threads p)")
  case False
  with assms show ?thesis by (auto simp: pool_step_def)
next
  case live: True
  then have i: "i < length (bp_threads p)" by simp
  let ?pc = "bp_threads p ! i"
  obtain pc' w' st' where step: "bw_step nt config ?pc (bp_world p) (bp_stats p) = (pc', w', st')"
    by (rule prod_cases3)
  note eff = bw_step_effect [OF step]
  have "total_requests st' = word_of_nat (length (latencies st') + sum_list (map counted_early ((bp_threads p)[i := pc'])))"
  proof -
    have "total_requests st' + word_of_nat (length (latencies (bp_stats p)) + counted_early ?pc) =
        word_of_nat (length (latencies (bp_stats p)) + sum_list (map counted_early (bp_threads p))) +
        word_of_nat (length (latencies st') + counted_early pc')"
      using eff(3) assms by (simp add: pool_ok_def Let_def)
    also have "\<dots> = word_of_nat (length (latencies (bp_stats p)) + length (latencies st') +
        (sum_list (map counted_early (bp_threads p)) + counted_early pc'))"
      by (simp add: algebra_simps)
    also have "\<dots> = word_of_nat (length (latencies (bp_stats p)) + length (latencies st') +
        (sum_list (map counted_early ((bp_threads p)[i := pc'])) + counted_early ?pc))"
      by (simp only: sum_list_upd [OF i])
    finally show ?thesis by (simp add: algebra_simps)
  qed
  moreover have "total_bytes st' + sum_list (map owed_bytes ((bp_threads p)[i := pc'])) =
      sum_list (bp_replies p) + sum_list (new_reply ?pc pc')"
  proof -
    have "total_bytes st' + sum_list (map owed_bytes ((bp_threads p)[i := pc'])) + owed_bytes ?pc =
        total_bytes st' + owed_bytes pc' + sum_list (map owed_bytes (bp_threads p))"
      using sum_list_upd [OF i, of owed_bytes pc'] by (simp add: algebra_simps)
    also have "\<dots> = sum_list (bp_replies p) + sum_list (new_reply ?pc pc') + owed_bytes ?pc"
      using eff(4) assms by (simp add: pool_ok_def Let_def algebra_simps)
    finally show ?thesis by simp
  qed
  moreover have "length (latencies st') + sum_list (map (left_of reqs) ((bp_threads p)[i := pc'])) =
      length (latencies (bp_stats p)) + sum_list (map (left_of reqs) (bp_threads p))"
    if "reqs = unat (requests_per_connection config)" for reqs
    using sum_list_upd [OF i, of "left_of reqs" pc'] eff(1) that by simp
  moreover have "length (latencies st') + sum_list (map in_flight ((bp_threads p)[i := pc'])) =
      length (latencies (bp_stats p)) + sum_list (map in_flight (bp_threads p)) + length (new_reply ?pc pc')"
    using sum_list_upd [OF i, of in_flight pc'] eff(2) by simp
  ultimately show ?thesis
    using assms live by (simp add: pool_ok_def pool_step_def step Let_def)
qed

lemma pool_run_ok: "pool_ok config p \<Longrightarrow> pool_ok config (fold (pool_step nt config) sched p)"
  by (induction sched arbitrary: p) (simp_all add: pool_step_ok)

lemma ended_sums:
  assumes "list_all ended ts"
  shows "sum_list (map in_flight ts) = 0" "sum_list (map counted_early ts) = 0"
    "sum_list (map owed_bytes ts) = 0"
proof -
  have "in_flight pc = 0 \<and> counted_early pc = 0 \<and> owed_bytes pc = 0" if "ended pc" for pc :: "'a bw_pc"
    using that by (cases pc) simp_all
  with assms show "sum_list (map in_flight ts) = 0" "sum_list (map counted_early ts) = 0"
    "sum_list (map owed_bytes ts) = 0"
    by (induction ts) auto
qed

text \<open>C9: every reply is counted once.  However the threads interleave on the shared statistics, a
  benchmark that ends reports as the number of requests exactly the replies received (modulo 2 to the
  64), which are all requests of all connections except those a failed worker had left; there is one
  latency per reply, and the byte counter is the sum of their sizes.\<close>

theorem benchmark_report:
  assumes "run_benchmark nt fl config sched w = Some (Ok (), out, w')"
  shows "let p = fold (pool_step nt config) sched (start_pool config (snd (nt_now nt w)));
      n = length (bp_replies p); reqs = unat (requests_per_connection config) in
    lit ''Total requests: '' @ show_nat (n mod 2 ^ 64) \<in> set out \<and>
    n + sum_list (map (left_of reqs) (bp_threads p)) = unat (num_connections config) * reqs \<and>
    length (latencies (bp_stats p)) = n \<and>
    total_bytes (bp_stats p) = sum_list (bp_replies p)"
proof -
  define p where "p = fold (pool_step nt config) sched (start_pool config (snd (nt_now nt w)))"
  have ok: "pool_ok config p"
    unfolding p_def by (rule pool_run_ok [OF pool_ok_start])
  from assms have done_all: "list_all ended (bp_threads p)"
    by (auto simp: run_benchmark_def p_def Let_def split: prod.splits if_splits)
  from assms obtain elapsed where line:
    "lit ''Total requests: '' @ show_nat (unat (total_requests (bp_stats p))) \<in> set out"
    using done_all
    by (auto simp: run_benchmark_def p_def print_results_def Let_def split: prod.splits if_splits res.splits)
  have "length (latencies (bp_stats p)) = length (bp_replies p)"
    "total_requests (bp_stats p) = word_of_nat (length (latencies (bp_stats p)))"
    "total_bytes (bp_stats p) = sum_list (bp_replies p)"
    "length (latencies (bp_stats p)) + sum_list (map (left_of (unat (requests_per_connection config))) (bp_threads p)) =
      unat (num_connections config) * unat (requests_per_connection config)"
    using ok ended_sums [OF done_all] by (simp_all add: pool_ok_def Let_def)
  moreover from this have "unat (total_requests (bp_stats p)) = length (bp_replies p) mod 2 ^ 64"
    by (simp add: unsigned_of_nat take_bit_eq_mod)
  ultimately show ?thesis
    using line by (simp add: Let_def flip: p_def)
qed

lemma not_panicked: "list_all ended ts \<Longrightarrow> \<not> list_ex panicked ts"
proof (induction ts)
  case (Cons pc ts)
  then show ?case by (cases pc) simp_all
qed simp

lemma run_benchmark_ended:
  assumes "nt_now nt w = (start, w1)" and "fold (pool_step nt config) sched (start_pool config w1) = p"
    and "list_all ended (bp_threads p)" and "nt_elapsed nt start (bp_world p) = (elapsed, w2)"
    and "print_results fl elapsed (bp_stats p) = (Ok ls, st)"
    and "export_csv nt fl (lit ''benchmark_results.csv'') st w2 = (Ok ls', w3)"
  shows "run_benchmark nt fl config sched w = Some (Ok (), start_lines config @ ls @ ls', w3)"
  using assms not_panicked [OF assms(3)] by (simp add: run_benchmark_def)

theorem benchmark_report_witness:
  "\<exists>out. run_benchmark echo_net plain_fmt demo_bench [0, 1, 1, 0, 0, 1, 0, 1, 0, 1, 0, 1] () = Some (Ok (), out, ()) \<and>
    lit ''Total requests: '' @ show_nat 2 \<in> set out"
proof -
  let ?sched = "[0, 1, 1, 0, 0, 1, 0, 1, 0, 1, 0, 1]"
  define p where "p = fold (pool_step echo_net demo_bench) ?sched (start_pool demo_bench (snd (nt_now echo_net ())))"
  obtain msg where msg: "create_http_request (payload_size demo_bench) = Ok msg"
    using demo_request by blast
  have steps: "pool_step echo_net demo_bench i q =
     (let (pc, w, st) = bw_step echo_net demo_bench (bp_threads q ! i) () (bp_stats q) in
      q\<lparr>bp_threads := (bp_threads q)[i := pc], bp_world := w, bp_stats := st,
        bp_replies := bp_replies q @ new_reply (bp_threads q ! i) pc\<rparr>)"
    if "i < length (bp_threads q)" "\<not> list_ex panicked (bp_threads q)" for i q
    using that by (simp add: pool_step_def)
  have p: "bp_threads p = [BwEnd None 0, BwEnd None 0]" "latencies (bp_stats p) = [Duration 0 5, Duration 0 5]"
    "bp_replies p = [10, 10]"
    unfolding p_def start_pool_def demo_bench_sizes
    by (simp_all add: numeral_2_eq_2 steps echo_connect echo_exchange demo_bench_sizes msg BenchmarkStats_new_def
        count_request_def count_bytes_def push_latency_def)
  have "sort (latencies (bp_stats p)) = [Duration 0 5, Duration 0 5]"
    by (simp add: p)
  moreover have "percentile n [Duration 0 5, Duration 0 5] = Ok (Duration 0 5)" if "n \<in> {50, 95, 99}" for n
    using that percentile_at [of "[Duration 0 5, Duration 0 5]" 50]
      percentile_at [of "[Duration 0 5, Duration 0 5]" 95] percentile_at [of "[Duration 0 5, Duration 0 5]" 99]
    by auto
  ultimately obtain ls st where ls: "print_results plain_fmt (Duration 0 5) (bp_stats p) = (Ok ls, st)"
    by (simp add: print_results_def percentile_lines_def Let_def)
  have csv: "\<exists>ls'. export_csv echo_net plain_fmt f st () = (Ok ls', ())" for f
  proof -
    have "fold (\<lambda>l (ok, w). if ok then cf_writeln echo_net l w else (False, w)) xs (True, ()) = (True, ())" for xs
      by (induction xs) (simp_all add: echo_net_def)
    moreover have "cf_create echo_net f () = (True, ())" by (simp add: echo_net_def)
    ultimately show ?thesis by (simp add: export_csv_def)
  qed
  then obtain ls' where ls': "export_csv echo_net plain_fmt (lit ''benchmark_results.csv'') st () = (Ok ls', ())"
    by blast
  have now: "nt_now echo_net () = (Duration 0 0, ())" "nt_elapsed echo_net (Duration 0 0) (bp_world p) = (Duration 0 5, ())"
    by (simp_all add: echo_net_def)
  have "fold (pool_step echo_net demo_bench) ?sched (start_pool demo_bench ()) = p"
    unfolding p_def now by simp
  from run_benchmark_ended [OF now(1) this _ now(2) ls ls'] p(1) obtain out where
    run: "run_benchmark echo_net plain_fmt demo_bench ?sched () = Some (Ok (), out, ())" by simp
  from benchmark_report [OF run] p(3) have "lit ''Total requests: '' @ show_nat 2 \<in> set out"
    unfolding p_def [symmetric] Let_def by (simp flip: numeral_2_eq_2)
  with run show ?thesis by blast
qed

end
