(* ===== verification/End_To_End.thy ===== *)
theory End_To_End
  imports Reactor Bench
begin

text \<open>
  Properties that span components: from the event of a readable connection to the bytes a client
  reads back, and the load generator's request at the server's routes.
\<close>

unbundle bit_operations_syntax

section \<open>A file request, from event to response\<close>

lemma file_response_status_line:
  "status_line (file_response contents path) = lit ''HTTP/1.1 200 OK'' @ crlf"
proof -
  have "resp_status_text (file_response contents path) = lit ''OK''"
    by (auto simp: file_response_def Let_def set_body_def with_header_def ok_response_def
        HttpResponse_new_def status_text_for_code_def split: option.split)
  moreover have "show_nat 200 = lit ''200''"
    by (simp add: show_nat.simps lit_def)
  ultimately show ?thesis
    by (simp add: status_line_def file_response_fields) (simp add: lit_def)
qed

text \<open>C2: a file request, end to end.  In the static mode, when a readable connection delivers a request
  for \<open>/p\<close> in one read, the file exists, its mapping succeeds and delivers the whole file (so it is
  neither empty nor a directory) and the kernel does not refuse the write of the response: handling
  the event succeeds, writes exactly once, to that connection, and what a client reads back from the
  bytes written is status 200, the length of the file and the file byte for byte; the file and its
  mapping are released, and the connection stays as it was.\<close>

theorem file_request_end_to_end:
  assumes "fd \<noteq> l" and "flags AND 1 \<noteq> 0" and "mode config = FastPath"
    and "hash_order (pf_header_order pf)"
    and "do_call (pf_kernel pf) (SysRead fd 8192) (sv_os sv) = (r, m)"
    and "0 <s ret64 r" and "unat (ret64 r) = length (out_bytes r)" and "length (out_bytes r) \<le> 8192"
    and "HttpRequest_parse (pf_httparse pf) (pf_lower pf) (out_bytes r) = Ok req"
    and "req_path req = 47 # p @ q" and "63 \<notin> set p" and "q = [] \<or> hd q = 63"
    and "do_call (pf_kernel pf) (SysStat (path_join (static_dir config) p)) m = (r1, m1)"
    and "\<not> ret32 r1 <s 0"
    and "MmapFile_new (pf_kernel pf) (path_join (static_dir config) p) m1 = (Ok f, m2)"
    and "length (mm_data f) = unat (mm_len f)"
    and "\<not> ret64 (fst (do_call (pf_kernel pf) (SysWrite fd (to_bytes (pf_header_order pf)
        (file_response (mm_data f) (path_join (static_dir config) p)))) (MmapFile_drop (pf_kernel pf) f m2))) <s 0"
  shows "\<exists>sv' new bytes hs. handle_event pf config l (fd, flags) (ep, sv) = Some (Ok (), (ep, sv')) \<and>
    trace (sv_os sv') = trace (sv_os sv) @ new \<and> writes new = [(fd, bytes)] \<and>
    closed_fds new = opened_fds new \<and> unmapped new = mapped new \<and>
    read_response bytes = Some (as_bytes (lit ''HTTP/1.1 200 OK''), hs, mm_data f) \<and>
    map_of hs (as_bytes (lit ''Content-Length'')) = Some (as_bytes (show_nat (length (mm_data f))))"
proof -
  let ?k = "pf_kernel pf" and ?path = "path_join (static_dir config) p"
  let ?resp = "file_response (mm_data f) ?path"
  let ?bytes = "to_bytes (pf_header_order pf) ?resp"
  let ?sv1 = "sv\<lparr>sv_prom := pr_inc (pf_prom pf) RequestsTotal (sv_prom sv), sv_os := MmapFile_drop ?k f m2\<rparr>"
  have static: "handle_static_file ?k config req m = (Ok ?resp, MmapFile_drop ?k f m2)"
    using static_file_run [OF assms(10-13)] assms(14-16) by (simp add: as_slice_data)
  obtain w m4 where w: "do_call ?k (SysWrite fd ?bytes) (MmapFile_drop ?k f m2) = (w, m4)"
    "trace m4 = trace (MmapFile_drop ?k f m2) @ [(SysWrite fd ?bytes, w)]"
    by (rule do_call_obtain)
  have w_ok: "\<not> ret64 w <s 0"
    using assms(17) w(1) by simp
  have run: "handle_request pf config fd (out_bytes r) (ep, sv\<lparr>sv_os := m\<rparr>) =
      (Ok (), (ep, ?sv1\<lparr>sv_os := m4, sv_prom := pr_observe (pf_prom pf) (pr_inc_by (pf_prom pf) BytesSent
         (word_of_nat (length ?bytes)) (sv_prom ?sv1))\<rparr>))"
    using assms(3,9) static w(1) w_ok
    by (simp add: handle_request_def io_bind_def on_prom_def make_response_def on_os_def on_ep_def
        epoll_write_def Let_def)
  have pos: "\<not> ret64 r <s 0" "ret64 r \<noteq> 0"
    using assms(6) by auto
  have "take (unat (ret64 r)) (overlay (out_bytes r) (replicate 8192 0)) = out_bytes r"
    using assms(7,8) by (simp add: take_overlay)
  with assms(1,2,5) pos have "handle_event pf config l (fd, flags) (ep, sv) =
      Some (handle_request pf config fd (out_bytes r) (ep, sv\<lparr>sv_os := m\<rparr>))"
    by (simp add: handle_event_def EPOLLIN_def on_ep_def epoll_read_def Let_def word_neq_0_conv)
  with run have event: "handle_event pf config l (fd, flags) (ep, sv) =
      Some (Ok (), (ep, ?sv1\<lparr>sv_os := m4, sv_prom := pr_observe (pf_prom pf) (pr_inc_by (pf_prom pf) BytesSent
         (word_of_nat (length ?bytes)) (sv_prom ?sv1))\<rparr>))" by simp
  from handle_static_file_calls [OF static] obtain new where new:
    "trace (MmapFile_drop ?k f m2) = trace m @ new" "\<forall>(c, r) \<in> set new. file_call c"
    "closed_fds new = opened_fds new" "unmapped new = mapped new" by auto
  have tr: "trace m4 = trace (sv_os sv) @ (SysRead fd 8192, r) # new @ [(SysWrite fd ?bytes, w)]"
    using do_call_trace [OF assms(5)] w(2) new(1) by simp
  from read_head [OF assms(4) safe_built_head [OF file_response_safe], of "mm_data f" ?path] obtain ln hs where rd:
    "read_response ?bytes = Some (ln, hs, mm_data f)" "ln @ [13, 10] = as_bytes (status_line ?resp)"
    "\<forall>n. valid_str n \<longrightarrow> map_of hs (as_bytes n) = map_option as_bytes (hm_get (resp_headers ?resp) n)"
    by (auto simp: file_response_fields)
  have "ln = as_bytes (lit ''HTTP/1.1 200 OK'')"
    using rd(2) by (simp add: file_response_status_line as_bytes_crlf)
  moreover have "valid_str (lit ''Content-Length'')" by (simp add: lit_def scalar_def)
  then have "map_of hs (as_bytes (lit ''Content-Length'')) = Some (as_bytes (show_nat (length (mm_data f))))"
    using rd(3) by (simp add: file_response_fields)
  ultimately show ?thesis
    using event tr rd(1) new file_calls_only(1) [OF new(2)]
    by (intro exI [of _ "?sv1\<lparr>sv_os := m4, sv_prom := pr_observe (pf_prom pf) (pr_inc_by (pf_prom pf) BytesSent
         (word_of_nat (length ?bytes)) (sv_prom ?sv1))\<rparr>"]
        exI [of _ "(SysRead fd 8192, r) # new @ [(SysWrite fd ?bytes, w)]"] exI [of _ ?bytes] exI [of _ hs])
       simp
qed

theorem file_request_end_to_end_witness:
  "\<exists>sv' bytes hs. handle_event (demo_platform get_root) (demo_config [] FastPath) 4 (7, 1)
      (demo_state [(ret_int 2)\<lparr>out_bytes := [71, 69]\<rparr>, ret_int 0, ret_int 5, (ret_int 0)\<lparr>ret64 := 2\<rparr>,
        (ret_int 0)\<lparr>ret64 := 4096, out_bytes := [104, 105]\<rparr>, ret_int 0, ret_int 0, ret_int 90]) =
      Some (Ok (), (fst (demo_state []), sv')) \<and>
    writes (trace (sv_os sv')) = [(7, bytes)] \<and>
    read_response bytes = Some (as_bytes (lit ''HTTP/1.1 200 OK''), hs, [104, 105])"
proof -
  let ?pf = "demo_platform get_root" and ?c = "demo_config [] FastPath"
  let ?w5 = "[ret_int 5, (ret_int 0)\<lparr>ret64 := 2\<rparr>, (ret_int 0)\<lparr>ret64 := 4096, out_bytes := [104, 105]\<rparr>,
      ret_int 0, ret_int 0, ret_int 90]"
  let ?r = "(ret_int 2)\<lparr>out_bytes := [71, 69]\<rparr>"
  let ?sv = "snd (demo_state (?r # ret_int 0 # ?w5))"
  let ?f = "\<lparr>mm_ptr = 4096, mm_len = 2, mm_file = 5, mm_data = [104, 105]\<rparr>"
  let ?path = "path_join (static_dir ?c) []"
  let ?m = "\<lparr>world = ret_int 0 # ?w5, trace = [(SysRead 7 8192, ?r)]\<rparr>"
  let ?m1 = "\<lparr>world = ?w5, trace = [(SysRead 7 8192, ?r), (SysStat ?path, ret_int 0)]\<rparr>"
  have k: "pf_kernel ?pf = script" "pf_header_order ?pf = id" "pf_httparse ?pf = get_root" "pf_lower ?pf = id"
    by (simp_all add: demo_platform_def)
  have read: "do_call (pf_kernel ?pf) (SysRead 7 8192) (sv_os ?sv) = (?r, ?m)"
    by (simp add: k demo_state_def)
  have stat: "do_call (pf_kernel ?pf) (SysStat ?path) ?m = (ret_int 0, ?m1)"
    by (simp add: k)
  have "\<exists>m2. MmapFile_new script ?path ?m1 = (Ok ?f, m2) \<and> world m2 = [ret_int 0, ret_int 0, ret_int 90]"
    by (simp add: MmapFile_new_def word_sless_alt)
  then obtain m2 where m2: "MmapFile_new (pf_kernel ?pf) ?path ?m1 = (Ok ?f, m2)"
    "world m2 = [ret_int 0, ret_int 0, ret_int 90]"
    unfolding k by blast
  have "world (MmapFile_drop script ?f m2) = [ret_int 90]"
    using m2(2) by (simp add: MmapFile_drop_def drop_file_def do_call_def)
  then have wr: "\<not> ret64 (fst (do_call (pf_kernel ?pf) (SysWrite 7 bytes) (MmapFile_drop (pf_kernel ?pf) ?f m2))) <s 0"
    for bytes
    by (simp add: k do_call_def word_sless_alt)
  obtain req where req: "HttpRequest_parse (pf_httparse ?pf) (pf_lower ?pf) (out_bytes ?r) = Ok req"
    "req_path req = 47 # [] @ []"
    by (simp add: k get_root_def HttpRequest_parse_def)
  have side: "(7 :: raw_fd) \<noteq> 4" "(1 :: u32) AND 1 \<noteq> 0" "mode ?c = FastPath" "hash_order (pf_header_order ?pf)"
    "0 <s ret64 ?r" "unat (ret64 ?r) = length (out_bytes ?r)" "length (out_bytes ?r) \<le> 8192"
    "\<not> ret32 (ret_int 0) <s 0" "length (mm_data ?f) = unat (mm_len ?f)" "63 \<notin> set []" "([] :: rstr) = [] \<or> hd [] = 63"
    by (simp_all add: demo_config_def k hash_order_def word_sless_alt)
  have st: "demo_state (?r # ret_int 0 # ?w5) = (fst (demo_state []), ?sv)" "trace (sv_os ?sv) = []"
    by (simp_all add: demo_state_def)
  from file_request_end_to_end [OF side(1-4) read side(5-7) req side(10,11) stat side(8) m2(1) side(9) wr,
      of "fst (demo_state [])"] obtain sv' new bytes hs where res:
    "handle_event ?pf ?c 4 (7, 1) (fst (demo_state []), ?sv) = Some (Ok (), (fst (demo_state []), sv'))"
    "trace (sv_os sv') = trace (sv_os ?sv) @ new" "writes new = [(7, bytes)]"
    "read_response bytes = Some (as_bytes (lit ''HTTP/1.1 200 OK''), hs, mm_data ?f)"
    by blast
  have "writes (trace (sv_os sv')) = [(7, bytes)]"
    unfolding res(2) st(2) using res(3) by simp
  moreover have "read_response bytes = Some (as_bytes (lit ''HTTP/1.1 200 OK''), hs, [104, 105])"
    using res(4) by simp
  ultimately show ?thesis
    using res(1) by (subst st(1)) blast
qed

section \<open>The load generator against the server\<close>







end
