(* ===== verification/Spec2Isabelle.thy ===== *)
theory Spec2Isabelle
  imports Prelude Rust_Str Rust_Fmt Rust_Path Hash_Map Host Http_Parser Http_Response Request_Wire
    Syscalls Epoll
    Queue Config Mmap Sendfile Handlers Reactor Worker Tuning Cpu_Affinity Dpdk Io_Uring Server_Main
    Bench Bench_Run End_To_End
begin

text \<open>
  A model of the RustKernelEngine HTTP server and its load generator.

  \<^bold>\<open>The program.\<close>  \<open>src/main.rs\<close> reads the command line, reports on the system's limits
  (\<open>src/sys/tuning.rs\<close>), announces a backend, pins the main thread (\<open>src/sys/cpu_affinity.rs\<close>) and
  starts a reactor (\<open>src/worker/reactor.rs\<close>): one thread runs an epoll event loop that accepts
  connections, reads requests, answers them from files or from three dynamic routes, and counts; one
  worker thread per configured worker polls a work-stealing queue (\<open>src/worker/queue.rs\<close>).  The loop
  uses the epoll backend (\<open>src/net/epoll.rs\<close>), the request parser and response builder (\<open>src/http\<close>)
  and memory-mapped files (\<open>src/file/mmap.rs\<close>).  \<open>src/file/sendfile.rs\<close> offers zero-copy transfers,
  \<open>src/net/io_uring.rs\<close> a second backend and \<open>src/net/dpdk_adapter.rs\<close> a placeholder for a third; the
  loop uses none of the three.  \<open>bench/run_bench.rs\<close> is a program of its own: it sends requests over
  several connections and reports on rates and latencies.

  \<^bold>\<open>Theories.\<close>
  \<^item> \<open>Prelude\<close>: machine types, the error values, Rust's \<open>Result\<close> with panics as a third outcome.
  \<^item> \<open>Rust_Str\<close>, \<open>Rust_Fmt\<close>, \<open>Rust_Path\<close>, \<open>Hash_Map\<close>: what the source uses of the standard library.
    Strings are lists of Unicode scalar values with byte offsets computed through UTF-8; hash maps are
    an interface (locale \<open>hash_map\<close>) with an association-list model, and their order of iteration is a
    parameter.
  \<^item> \<open>Syscalls\<close>: the kernel as a parameter (a function from a call and the state of the world to a
    result and the next state), the machine with the trace of all calls, programs as state
    transformers with results, and the locale \<open>io_rel\<close> of relations programs keep.
  \<^item> \<open>Host\<close>: the machine as the set-up code sees it, a record of operations on files, directories and
    limits, with the log as an output that is part of the state.
  \<^item> \<open>Http_Parser\<close>, \<open>Http_Response\<close>: \<open>src/http/parser.rs\<close> and \<open>src/http/response.rs\<close>.  \<open>Request_Wire\<close>: what
    the tokenizer promises of a rendered request (\<open>httparse_law\<close>), and a tokenizer that keeps it.
  \<^item> \<open>Epoll\<close>, \<open>Io_Uring\<close>, \<open>Dpdk\<close>: the files of the same names under \<open>src/net\<close>.  \<open>Mmap\<close>, \<open>Sendfile\<close>:
    \<open>src/file/mmap.rs\<close>, \<open>src/file/sendfile.rs\<close>.
  \<^item> \<open>Queue\<close>: \<open>src/worker/queue.rs\<close> over the locale \<open>bounded_queue\<close>; \<open>Worker\<close>: the worker threads as
    an interleaved step relation over atomic queue operations.
  \<^item> \<open>Handlers\<close>, \<open>Reactor\<close>: \<open>src/worker/reactor.rs\<close>; first the listening socket and the handling of one
    request, then the accept loop, the event loop and the start of the server.  The locale
    \<open>event_steps\<close> of \<open>Reactor\<close> holds what a property of the loop needs of the handling of one event.
  \<^item> \<open>Tuning\<close>, \<open>Cpu_Affinity\<close>: the files of \<open>src/sys\<close>.
  \<^item> \<open>Config\<close>: the configuration and command line of \<open>src/main.rs\<close>; \<open>Server_Main\<close>: its \<open>main\<close>, composed
    from the theories above.
  \<^item> \<open>Bench\<close>: configuration, request, statistics and report of \<open>bench/run_bench.rs\<close>; \<open>Bench_Run\<close>: its
    connection workers, straight-line and interleaved, and its \<open>main\<close>.
  \<^item> \<open>End_To_End\<close>: properties across the event loop, the parser, the response builder and the client.

  \<^bold>\<open>Correspondence.\<close>  A struct is a \<open>record\<close>, an enum a \<open>datatype\<close>, a machine integer a word of its
  width.  An operation takes and returns the state it changes; a method with \<open>Result\<close> returns \<open>Ok\<close>,
  \<open>Err\<close> with one constructor per message, or \<open>Panic\<close> (the release profile aborts on panic).
  Log lines are the output of the set-up code and are modelled there, text included (\<open>Host\<close>); in the
  event loop and the workers logging has no effect on state and is left out.  Third-party code is a
  parameter: \<open>httparse\<close>, \<open>serde_json\<close>, \<open>prometheus\<close>, crossbeam's \<open>ArrayQueue\<close>, the \<open>io-uring\<close>,
  \<open>core_affinity\<close> and \<open>num_cpus\<close> crates, the \<open>cpu_set_t\<close> of the C library, and the kernel.  What the
  theorems need of it is named (\<open>httparse_law\<close>, \<open>counter_laws\<close>, \<open>array_queue_laws\<close>, \<open>hash_order\<close>, \<open>sendfile_bounded\<close>,
  \<open>uring_laws\<close>, \<open>cpu_set_laws\<close>, \<open>sched_law\<close>, \<open>sysctl_law\<close>), states documented behaviour, and has an
  instance at which the theorems are exercised.

  \<^bold>\<open>What is shown.\<close>
  Parsing and building: every outcome of parsing, requests that parse back from their rendering,
  header lookup, the query decoder and its round trip; responses that read back from their bytes
  when their headers are safe on a line, and what becomes of Content-Length under any builder calls.
  Epoll: the connection table is the kernel's interest list after any run of operations; events
  reach the right descriptors; closing and dropping leave nothing open that the kernel let go of.
  Io_uring: in any run, what the kernel takes is what was pushed, in order, and every completion
  belongs to one entry; an entry whose submission failed stays queued.
  Reactor: the socket's address bytes, what each request is answered with and what it costs, the
  static handler's path and its panics, the routes, draining the accept backlog, the invariant of the
  event loop, the accounting of requests, errors and bytes against the writes in the trace, and how
  the loop ends.  End to end, a request for a file, from its event to the bytes the client reads back,
  and the load generator's request against the routes.
  Queues and workers: the wiring, stealing as the first non-empty queue, conservation of tasks in
  every interleaving, and what stops a worker.
  Set-up: the report finds what the tuning function wrote, how much of an affinity that is set is
  read back, the choice of backend changes the log only, and every way in which \<open>main\<close> can end.
  Load generator: percentiles lie within the samples, every reply is counted once in every
  interleaving of the threads, and what a worker says on its connection, round by round.

  \<^bold>\<open>Loops.\<close>  The accept loop, the event loop and the sendfile loop are partial functions whose value
  is \<open>None\<close> when they do not return; that they return is proved where it is claimed (a finite backlog,
  a kernel that sends no more than asked).  The event loop is not meant to return, and the theorem
  says that it only does with an error.  Everything else is total; a worker's round takes at most one
  step per queue and three more, and a connection of the load generator ends with its requests.

  \<^bold>\<open>Not modelled.\<close>  The set-up of the tracing subscriber in \<open>main\<close>; the trait of \<open>src/net/mod.rs\<close>,
  which no type implements; module declarations; what the load generator writes to its standard
  error; the rendering of floating-point numbers, a parameter of its report; memory, which is taken to be
  available up to the length limit of a string; the unit tests, scripts
  and documentation.
\<close>

end
